theory Spec2Isabelle
  imports Complex_Main
begin

section \<open>Conventions of the embedding\<close>

text \<open>
  The module \<^verbatim>\<open>thermal_network_matrix_edited.py\<close> computes on numpy arrays and pandas
  data frames of floats. In this development

  \<^item> a Python float is a HOL \<open>real\<close> (rounding error of the float arithmetic is not
    modelled);
  \<^item> where the source itself writes, tests or removes \<^verbatim>\<open>np.nan\<close> (\<^verbatim>\<open>np.full(n, np.nan)\<close>,
    \<^verbatim>\<open>nan_to_num\<close>, \<^verbatim>\<open>dropna\<close>), and where a NaN decides what the code does (the loop
    test of \<^verbatim>\<open>change_to_edge_node_matrix_t\<close>), the value is a \<open>real option\<close> and \<open>None\<close>
    is NaN;
  \<^item> a data frame is a record of its row labels, its column labels and its values as a
    list of rows; a one-row frame is the list of its values;
  \<^item> an exception is a value \<open>Inl e\<close> of a sum type, a normal return is \<open>Inr r\<close>;
  \<^item> text printed by the source is returned as a list of messages.
\<close>

datatype error = IndexError | KeyError | ValueError | TypeError | LinAlgError

datatype message =
    No_convergence_of_looped_massflows nat
  | Error_in_mass_flows_node_demands
  | Error_in_mass_flows_loop_pressure
  | Requires_a_bigger_pipe string
  | Cannot_fulfill_supply_temperature nat

record node =
  Name :: string
  Type :: string
  Building :: string

record edge_node_frame =
  index :: "string list"
  columns :: "string list"
  values_of :: "real list list"

definition shape0 :: "edge_node_frame \<Rightarrow> nat" where
  "shape0 df = length (index df)"

definition shape1 :: "edge_node_frame \<Rightarrow> nat" where
  "shape1 df = length (columns df)"

definition number_of_plants :: "node list \<Rightarrow> nat" where
  "number_of_plants all_nodes_df = length (filter (\<lambda>n. Type n = ''PLANT'') all_nodes_df)"

section \<open>The per-timestep orchestrator: \<^verbatim>\<open>solve_network_temperatures\<close>\<close>

record network_temperatures =
  t_supply_nodes_2_k :: "real option list"
  t_return_nodes_2_k :: "real option list"
  plant_heat_requirement_kw :: "real option list"
  edge_mass_flow_df_2_kgs :: "real list"
  q_loss_edges_2_kw :: "real option list"

text \<open>
  \<^verbatim>\<open>solve_network_temperatures\<close> (lines 1112-1364). The branch taken when the sum of the
  absolute edge mass flows is not zero (lines 1169-1354: the coupled hydraulic and thermal
  solver) is the parameter \<open>full_solver\<close>; the test and the other branch (lines 1356-1361)
  are written out.
\<close>

definition solve_network_temperatures ::
  "(edge_node_frame \<Rightarrow> node list \<Rightarrow> real list \<Rightarrow> error + network_temperatures)
    \<Rightarrow> edge_node_frame \<Rightarrow> node list \<Rightarrow> real list \<Rightarrow> error + network_temperatures" where
  "solve_network_temperatures full_solver edge_node_df all_nodes_df edge_mass_flow_df =
     (if sum_list (map abs edge_mass_flow_df) \<noteq> 0
      then full_solver edge_node_df all_nodes_df edge_mass_flow_df
      else Inr \<lparr>t_supply_nodes_2_k = replicate (shape0 edge_node_df) None,
                t_return_nodes_2_k = replicate (shape0 edge_node_df) None,
                plant_heat_requirement_kw = replicate (number_of_plants all_nodes_df) (Some 0),
                edge_mass_flow_df_2_kgs = edge_mass_flow_df,
                q_loss_edges_2_kw = replicate (shape1 edge_node_df) (Some 0)\<rparr>)"

section \<open>Pipe sizing: \<^verbatim>\<open>assign_pipes_to_edges\<close>\<close>

record catalog_row =
  Pipe_DN :: string
  D_ext_m :: real
  D_int_m :: real
  D_ins_m :: real
  Vdot_min_m3s :: real
  Vdot_max_m3s :: real

text \<open>The derived column \<^verbatim>\<open>mdot_max_kgs = Vdot_max_m3s * gv.rho_60\<close> (line 442).\<close>

definition mdot_max_kgs :: "real \<Rightarrow> catalog_row \<Rightarrow> real" where
  "mdot_max_kgs rho_60 r = Vdot_max_m3s r * rho_60"

text \<open>\<^verbatim>\<open>np.amax(np.absolute(v))\<close> of a non-empty array.\<close>

definition amax_abs :: "real list \<Rightarrow> real" where
  "amax_abs v = fold max (map abs (tl v)) (abs (hd v))"

text \<open>
  The \<^verbatim>\<open>while pipe_found == False\<close> loop of lines 446-459 for one edge, started at
  \<open>i\<close>. Reading row \<open>i\<close> of an empty catalog raises \<^verbatim>\<open>KeyError\<close>.
\<close>

function find_pipe ::
  "real \<Rightarrow> string \<Rightarrow> real \<Rightarrow> catalog_row list \<Rightarrow> nat \<Rightarrow> error + (catalog_row \<times> message list)" where
  "find_pipe rho_60 pipe flow pipe_catalog i =
     (if length pipe_catalog \<le> i then Inl KeyError
      else if flow \<le> mdot_max_kgs rho_60 (pipe_catalog ! i) then Inr (pipe_catalog ! i, [])
      else if i = length pipe_catalog - 1 then Inr (pipe_catalog ! i, [Requires_a_bigger_pipe pipe])
      else find_pipe rho_60 pipe flow pipe_catalog (i + 1))"
  by pat_completeness auto
termination
  by (relation "measure (\<lambda>(rho_60, pipe, flow, pipe_catalog, i). length pipe_catalog - i)") auto

text \<open>
  One pass of the \<^verbatim>\<open>for pipe in mass_flow_df\<close> loop: \<^verbatim>\<open>np.amax\<close> of an empty column raises
  \<^verbatim>\<open>ValueError\<close>.
\<close>

definition assign_pipe ::
  "real \<Rightarrow> catalog_row list \<Rightarrow> string \<times> real list \<Rightarrow> error + (catalog_row \<times> message list)" where
  "assign_pipe rho_60 pipe_catalog col =
     (if snd col = [] then Inl ValueError
      else find_pipe rho_60 (fst col) (amax_abs (snd col)) pipe_catalog 0)"

text \<open>
  \<^verbatim>\<open>assign_pipes_to_edges\<close> with \<^verbatim>\<open>set_diameter\<close> true (lines 444-459): the columns of
  \<^verbatim>\<open>mass_flow_df\<close> in order, the first exception ends the run. The result is
  \<^verbatim>\<open>pipe_properties_df\<close>, one catalog row per edge, and the printed messages.
\<close>

fun assign_pipes_to_edges ::
  "real \<Rightarrow> catalog_row list \<Rightarrow> (string \<times> real list) list
     \<Rightarrow> error + ((string \<times> catalog_row) list \<times> message list)" where
  "assign_pipes_to_edges rho_60 pipe_catalog [] = Inr ([], [])"
| "assign_pipes_to_edges rho_60 pipe_catalog (col # mass_flow_df) =
     (case assign_pipe rho_60 pipe_catalog col of
        Inl e \<Rightarrow> Inl e
      | Inr (r, out) \<Rightarrow>
          (case assign_pipes_to_edges rho_60 pipe_catalog mass_flow_df of
             Inl e \<Rightarrow> Inl e
           | Inr (props, out') \<Rightarrow> Inr ((fst col, r) # props, out @ out')))"

text \<open>The record the claim describes, in the words of the specification.\<close>

definition smallest_sufficient_pipe ::
  "real \<Rightarrow> string \<Rightarrow> real \<Rightarrow> catalog_row list \<Rightarrow> catalog_row \<times> message list" where
  "smallest_sufficient_pipe rho_60 pipe flow pipe_catalog =
     (case find (\<lambda>r. flow \<le> mdot_max_kgs rho_60 r) pipe_catalog of
        Some r \<Rightarrow> (r, [])
      | None \<Rightarrow> (last pipe_catalog, [Requires_a_bigger_pipe pipe]))"


text \<open>Two rows of a piping catalog, for the examples.\<close>

definition DN20 :: catalog_row where
  "DN20 = \<lparr>Pipe_DN = ''DN20'', D_ext_m = 0.0269, D_int_m = 0.0217, D_ins_m = 0.09,
           Vdot_min_m3s = 0.0001, Vdot_max_m3s = 0.001\<rparr>"

definition DN25 :: catalog_row where
  "DN25 = \<lparr>Pipe_DN = ''DN25'', D_ext_m = 0.0337, D_int_m = 0.0285, D_ins_m = 0.09,
           Vdot_min_m3s = 0.0002, Vdot_max_m3s = 0.002\<rparr>"

section \<open>Node demands: \<^verbatim>\<open>write_substation_values_to_nodes_df\<close>\<close>

text \<open>
  A one-row frame whose columns are labelled with the node names, in the order of
  \<^verbatim>\<open>all_nodes_df.index\<close>. It is created with every value NaN (line 2432).
  \<^verbatim>\<open>nodes_df[node] = v\<close> writes \<open>v\<close> to every column whose label is \<open>node\<close>.
\<close>

definition set_column ::
  "(string \<times> real option) list \<Rightarrow> string \<Rightarrow> real option \<Rightarrow> (string \<times> real option) list" where
  "set_column nodes_df label v = map (\<lambda>(l, x). if l = label then (l, v) else (l, x)) nodes_df"

text \<open>
  The loop of lines 2459-2465 over the rows of \<^verbatim>\<open>all_nodes_df\<close>. \<open>df_value\<close> is row 0 of
  the substation frame, a map from building names to mass flows; a building that is not a
  column of it raises \<^verbatim>\<open>KeyError\<close>.
\<close>

fun write_rows ::
  "(string \<rightharpoonup> real) \<Rightarrow> real option \<Rightarrow> node list \<Rightarrow> (string \<times> real option) list
     \<Rightarrow> error + (string \<times> real option) list" where
  "write_rows df_value plant_mass_flow [] nodes_df = Inr nodes_df"
| "write_rows df_value plant_mass_flow (row # rows) nodes_df =
     (if Type row = ''CONSUMER'' then
        (case df_value (Building row) of
           None \<Rightarrow> Inl KeyError
         | Some v \<Rightarrow> write_rows df_value plant_mass_flow rows
                       (set_column nodes_df (Name row) (Some v)))
      else if Type row = ''PLANT'' then
        write_rows df_value plant_mass_flow rows
          (set_column nodes_df (Name row) (map_option uminus plant_mass_flow))
      else write_rows df_value plant_mass_flow rows (set_column nodes_df (Name row) (Some 0)))"

text \<open>
  \<^verbatim>\<open>write_substation_values_to_nodes_df\<close> (lines 2432-2466). The quotient
  \<^verbatim>\<open>plant_mass_flow\<close> is written to PLANT nodes only; with no PLANT node it is a division by
  zero, whose result is modelled as \<open>None\<close>.
\<close>

definition write_substation_values_to_nodes_df ::
  "node list \<Rightarrow> (string \<rightharpoonup> real) \<Rightarrow> error + (string \<times> real option) list" where
  "write_substation_values_to_nodes_df all_nodes_df df_value =
     (let nodes_df = map (\<lambda>n. (Name n, None)) all_nodes_df;
          consumer_list = map Building (filter (\<lambda>n. Type n = ''CONSUMER'') all_nodes_df)
      in if list_ex (\<lambda>b. df_value b = None) consumer_list then Inl KeyError
         else
           let total = sum_list (map (\<lambda>b. the (df_value b)) consumer_list);
               plant_mass_flow =
                 (if number_of_plants all_nodes_df = 0 then None
                  else Some (total / real (number_of_plants all_nodes_df)))
           in write_rows df_value plant_mass_flow all_nodes_df nodes_df)"

text \<open>
  The demand of a node in the words of the specification: a CONSUMER node carries its
  building's flow, each of the \<open>p\<close> PLANT nodes carries minus the total consumer flow
  divided by \<open>p\<close>, every other node carries zero.
\<close>

definition total_consumer_flow :: "node list \<Rightarrow> (string \<rightharpoonup> real) \<Rightarrow> real" where
  "total_consumer_flow all_nodes_df df_value =
     (\<Sum>n \<leftarrow> filter (\<lambda>n. Type n = ''CONSUMER'') all_nodes_df. the (df_value (Building n)))"

definition node_demand :: "node list \<Rightarrow> (string \<rightharpoonup> real) \<Rightarrow> node \<Rightarrow> real" where
  "node_demand all_nodes_df df_value n =
     (if Type n = ''CONSUMER'' then the (df_value (Building n))
      else if Type n = ''PLANT''
      then - (total_consumer_flow all_nodes_df df_value / real (number_of_plants all_nodes_df))
      else 0)"

section \<open>The incidence matrix: \<^verbatim>\<open>get_thermal_network_from_csv\<close>\<close>

text \<open>
  A row of the edge table. The csv reader names the start and the end node of an edge
  \<^verbatim>\<open>NODE1\<close> and \<^verbatim>\<open>NODE2\<close>, the shapefile reader \<^verbatim>\<open>start node\<close> and \<^verbatim>\<open>end node\<close>.
\<close>

record edge_row =
  NODE1 :: string
  NODE2 :: string
  pipe_length :: real

text \<open>
  The loops of lines 2182-2188 (and, with the other column names, 2269-2275): the matrix
  starts as zeros, and entry \<open>(i, j)\<close> is set to 1 when the end node of edge \<open>j\<close> is node
  \<open>i\<close>, else to -1 when its start node is. The loops test nothing else.
\<close>

definition edge_node_entry :: "string \<Rightarrow> edge_row \<Rightarrow> real" where
  "edge_node_entry n e = (if NODE2 e = n then 1 else if NODE1 e = n then - 1 else 0)"

definition edge_node_matrix :: "string list \<Rightarrow> edge_row list \<Rightarrow> real list list" where
  "edge_node_matrix list_nodes edge_df = map (\<lambda>n. map (edge_node_entry n) edge_df) list_nodes"

definition column :: "nat \<Rightarrow> real list list \<Rightarrow> real list" where
  "column j m = map (\<lambda>row. row ! j) m"

text \<open>
  \<^verbatim>\<open>get_thermal_network_from_csv\<close>, lines 2179-2189: the frame of that matrix, labelled
  with the node and the edge names; it is returned as it is (line 2207). The arguments are
  the node names, the edge names and the edge table after the sorting of lines 2163-2169.
\<close>

definition get_thermal_network_from_csv ::
  "string list \<Rightarrow> string list \<Rightarrow> edge_row list \<Rightarrow> edge_node_frame" where
  "get_thermal_network_from_csv list_nodes list_edges edge_df =
     \<lparr>index = list_nodes, columns = list_edges,
      values_of = edge_node_matrix list_nodes edge_df\<rparr>"

text \<open>
  \<^verbatim>\<open>get_thermal_network_from_shapefile\<close>, lines 2249-2276: a \<^verbatim>\<open>ValueError\<close> for a
  duplicated node name or pipe name, otherwise the first edge-node matrix. What that reader
  does next with the matrix (lines 2278-2325: it negates columns to orient the flows, counts
  the nodes without incoming edge and raises \<^verbatim>\<open>ValueError\<close> when they are not as many as
  the plants) is not part of this model.
\<close>

definition first_edge_node_matrix ::
  "string list \<Rightarrow> string list \<Rightarrow> edge_row list \<Rightarrow> error + edge_node_frame" where
  "first_edge_node_matrix list_nodes list_pipes edge_df =
     (if \<not> distinct list_nodes then Inl ValueError
      else if \<not> distinct list_pipes then Inl ValueError
      else Inr \<lparr>index = list_nodes, columns = list_pipes,
                values_of = edge_node_matrix list_nodes edge_df\<rparr>)"

section \<open>The hydraulic solver: \<^verbatim>\<open>calc_mass_flow_edges\<close>\<close>

text \<open>\<^verbatim>\<open>np.nan_to_num\<close> on a value that is a number or NaN.\<close>

definition nan_to_num :: "real option \<Rightarrow> real" where
  "nan_to_num v = (case v of None \<Rightarrow> 0 | Some x \<Rightarrow> x)"

text \<open>
  \<^verbatim>\<open>np.delete(b, i)\<close> and \<^verbatim>\<open>df.drop(df.index[i])\<close> for a frame with one row per node and
  pairwise distinct row labels: entry \<open>i\<close> is left out.
\<close>

definition np_delete :: "'a list \<Rightarrow> nat \<Rightarrow> 'a list" where
  "np_delete xs i = take i xs @ drop (Suc i) xs"

definition dot :: "real list \<Rightarrow> real list \<Rightarrow> real" where
  "dot row x = sum_list (map2 (*) row x)"

text \<open>\<^verbatim>\<open>A.dot(x)\<close> for a matrix given by its rows.\<close>

definition mat_vec :: "real list list \<Rightarrow> real list \<Rightarrow> real list" where
  "mat_vec A x = map (\<lambda>row. dot row x) A"

text \<open>
  \<^verbatim>\<open>np.round(x, decimals=5)\<close> is \<^verbatim>\<open>np.rint(x * 10**5) / 10**5\<close>, and \<^verbatim>\<open>np.rint\<close> rounds to
  the nearest integer, a tie to the even one.
\<close>

definition rint :: "real \<Rightarrow> int" where
  "rint x =
     (let f = \<lfloor>x\<rfloor> in
      if x - of_int f < 1 / 2 then f
      else if 1 / 2 < x - of_int f then f + 1
      else if even f then f else f + 1)"

definition np_round5 :: "real \<Rightarrow> real" where
  "np_round5 x = of_int (rint (x * 100000)) / 100000"

text \<open>
  \<^verbatim>\<open>np.where(all_nodes_df['Type'] == 'PLANT')[0][0]\<close>: the position of the first PLANT
  node, \<^verbatim>\<open>IndexError\<close> when there is none.
\<close>

definition plant_index :: "node list \<Rightarrow> error + nat" where
  "plant_index all_nodes_df =
     (case find (\<lambda>i. Type (all_nodes_df ! i) = ''PLANT'') [0..<length all_nodes_df] of
        None \<Rightarrow> Inl IndexError
      | Some i \<Rightarrow> Inr i)"

text \<open>
  \<^verbatim>\<open>np.linalg.solve(A, b)\<close> for a matrix of \<open>n\<close> columns. numpy raises \<^verbatim>\<open>LinAlgError\<close> when the
  matrix is not square or is singular and \<^verbatim>\<open>ValueError\<close> when \<open>b\<close> has another length, and
  returns the solution of \<open>A x = b\<close> otherwise (LAPACK's \<^verbatim>\<open>gesv\<close>: elimination with row
  pivoting, then substitution). Over the reals the choice of the pivots does not change the
  result; here the pivot is the first row whose leading coefficient is not zero. An equation
  is the pair of its coefficients and its right-hand side.
\<close>

fun find_pivot ::
  "(real list \<times> real) list \<Rightarrow> ((real list \<times> real) \<times> (real list \<times> real) list) option" where
  "find_pivot [] = None"
| "find_pivot (r # rs) =
     (if hd (fst r) \<noteq> 0 then Some (r, rs)
      else (case find_pivot rs of None \<Rightarrow> None | Some (p, rest) \<Rightarrow> Some (p, r # rest)))"

text \<open>The equation \<open>r\<close> without its first unknown, eliminated with the pivot \<open>p\<close>.\<close>

definition reduce_row :: "real list \<times> real \<Rightarrow> real list \<times> real \<Rightarrow> real list \<times> real" where
  "reduce_row p r =
     (map2 (\<lambda>a q. a - hd (fst r) / hd (fst p) * q) (tl (fst r)) (tl (fst p)),
      snd r - hd (fst r) / hd (fst p) * snd p)"

function solve_rows :: "(real list \<times> real) list \<Rightarrow> error + real list" where
  "solve_rows rows =
     (if rows = [] then Inr []
      else (case find_pivot rows of
              None \<Rightarrow> Inl LinAlgError
            | Some (p, rest) \<Rightarrow>
                (case solve_rows (map (reduce_row p) rest) of
                   Inl e \<Rightarrow> Inl e
                 | Inr x \<Rightarrow> Inr ((snd p - dot (tl (fst p)) x) / hd (fst p) # x))))"
  by pat_completeness auto
termination
proof (relation "measure length", goal_cases)
  case 1
  show ?case by simp
next
  case (2 rows x2 p rest)
  have "length b + 1 = length a" if "find_pivot a = Some (q, b)" for a b q
    using that by (induction a arbitrary: q b) (auto split: if_splits option.splits)
  from this [of rows p rest] 2 show ?case by simp
qed

definition np_linalg_solve :: "nat \<Rightarrow> real list list \<Rightarrow> real list \<Rightarrow> error + real list" where
  "np_linalg_solve n A b =
     (if length A \<noteq> n \<or> \<not> list_all (\<lambda>row. length row = n) A then Inl LinAlgError
      else if length b \<noteq> n then Inl ValueError
      else solve_rows (zip A b))"

text \<open>
  What the solver calls and is not modelled here: \<^verbatim>\<open>find_loops\<close> (lines 384-418, the cycle
  basis that networkx computes), \<^verbatim>\<open>np.linalg.lstsq\<close>, and the body of one correction pass
  (lines 294-340), which from the current flows computes the corrected flows and the loop
  sums \<^verbatim>\<open>sum_delta_m_num\<close> out of \<^verbatim>\<open>calc_pressure_loss_pipe\<close> (logarithms and real powers).
  numpy arithmetic on arrays raises no exception.
\<close>

record numerics =
  find_loops :: "edge_node_frame \<Rightarrow> nat list list"
  lstsq :: "real list list \<Rightarrow> real list \<Rightarrow> real list"
  loop_correction :: "edge_node_frame \<Rightarrow> nat list list \<Rightarrow> real list \<Rightarrow> real list \<times> real list"

text \<open>
  The \<^verbatim>\<open>while\<close> loop of lines 289-354. \<open>correct\<close> is one correction pass. The state is
  the tolerance, the flows, the flows of the pass before, the loop sums and the iteration
  count; the result also holds what was printed. The test of the loop,
  \<^verbatim>\<open>(abs(mass_flow_edge - m_old) > tolerance).any()\<close>, is \<open>changed_above\<close>.
\<close>

definition changed_above :: "real \<Rightarrow> real list \<times> real list \<Rightarrow> bool" where
  "changed_above tolerance x = list_ex (\<lambda>d. tolerance < \<bar>fst d - snd d\<bar>) (zip (fst x) (snd x))"

function hardy_cross ::
  "(real list \<Rightarrow> real list \<times> real list) \<Rightarrow> real \<Rightarrow> real list \<Rightarrow> real list \<Rightarrow> real list \<Rightarrow> nat
     \<Rightarrow> real list \<times> real list \<times> nat \<times> message list" where
  "hardy_cross correct tolerance mass_flow_edge m_old sum_delta_m_num iterations =
     (if changed_above tolerance (mass_flow_edge, m_old) then
        (if iterations + 1 < 20 then
           hardy_cross correct 0.01 (fst (correct mass_flow_edge)) mass_flow_edge
             (snd (correct mass_flow_edge)) (iterations + 1)
         else if iterations + 1 < 50 then
           hardy_cross correct 0.02 (fst (correct mass_flow_edge)) mass_flow_edge
             (snd (correct mass_flow_edge)) (iterations + 1)
         else if iterations + 1 < 100 then
           hardy_cross correct 0.03 (fst (correct mass_flow_edge)) mass_flow_edge
             (snd (correct mass_flow_edge)) (iterations + 1)
         else (fst (correct mass_flow_edge), snd (correct mass_flow_edge), iterations + 1,
               [No_convergence_of_looped_massflows (iterations + 1)]))
      else (mass_flow_edge, sum_delta_m_num, iterations, []))"
  by pat_completeness auto
termination
  by (relation "measure (\<lambda>(correct, tolerance, mass_flow_edge, m_old, sum_delta_m_num, iterations).
                   100 - iterations)") auto

text \<open>
  For the statement of the loop's behaviour: what one pass does to the pair of the flows
  and the flows of the pass before, and the tolerance in force once \<open>iterations\<close> passes
  are done (lines 286 and 344-349), below the ceiling of 100.
\<close>

definition correction_pass ::
  "(real list \<Rightarrow> real list \<times> real list) \<Rightarrow> real list \<times> real list \<Rightarrow> real list \<times> real list" where
  "correction_pass correct x = (fst (correct (fst x)), fst x)"

definition tolerance_after :: "nat \<Rightarrow> real" where
  "tolerance_after iterations =
     (if iterations < 20 then 0.01 else if iterations < 50 then 0.02 else 0.03)"

text \<open>
  The verification of lines 366-378. Python's \<^verbatim>\<open>max\<close> of an empty array (a network of one
  node) raises \<^verbatim>\<open>ValueError\<close>.
\<close>

definition verify_solution ::
  "bool \<Rightarrow> real list list \<Rightarrow> real list \<Rightarrow> real list \<Rightarrow> real list \<Rightarrow> error + message list" where
  "verify_solution looped A b_original mass_flow_edge sum_delta_m_num =
     (if A = [] then Inl ValueError
      else Inr ((if 0.01 < amax_abs (map2 (-) b_original (mat_vec A mass_flow_edge))
                 then [Error_in_mass_flows_node_demands] else []) @
                (if looped \<and> list_ex (\<lambda>s. 5000 < \<bar>s\<bar>) sum_delta_m_num
                 then [Error_in_mass_flows_loop_pressure] else [])))"

text \<open>
  Lines 268-378 of \<^verbatim>\<open>calc_mass_flow_edges\<close>: the flows before the last statement rounds
  them, and what was printed.
\<close>

definition mass_flow_before_rounding ::
  "numerics \<Rightarrow> edge_node_frame \<Rightarrow> real option list \<Rightarrow> node list
     \<Rightarrow> error + (real list \<times> message list)" where
  "mass_flow_before_rounding env edge_node_df mass_flow_substation_df all_nodes_df =
     (let loops = find_loops env edge_node_df in
      case plant_index all_nodes_df of
        Inl e \<Rightarrow> Inl e
      | Inr i \<Rightarrow>
          (let A = np_delete (values_of edge_node_df) i;
               b = np_delete (map nan_to_num mass_flow_substation_df) i;
               solved =
                 (if loops \<noteq> [] then
                    Inr (hardy_cross (loop_correction env edge_node_df loops) 0.01
                           (lstsq env A b) (map (\<lambda>m. m - m) (lstsq env A b))
                           (replicate (length loops) 0) 0)
                  else (case np_linalg_solve (shape1 edge_node_df) A b of
                          Inl e \<Rightarrow> Inl e
                        | Inr m \<Rightarrow> Inr (m, [], 0, [])))
           in case solved of
                Inl e \<Rightarrow> Inl e
              | Inr r \<Rightarrow>
                  (case verify_solution (loops \<noteq> []) A b (fst r) (fst (snd r)) of
                     Inl e \<Rightarrow> Inl e
                   | Inr out \<Rightarrow> Inr (fst r, snd (snd (snd r)) @ out))))"

text \<open>\<^verbatim>\<open>calc_mass_flow_edges\<close>: lines 380-381 round the flows and return them.\<close>

definition calc_mass_flow_edges ::
  "numerics \<Rightarrow> edge_node_frame \<Rightarrow> real option list \<Rightarrow> node list
     \<Rightarrow> error + (real list \<times> message list)" where
  "calc_mass_flow_edges env edge_node_df mass_flow_substation_df all_nodes_df =
     (case mass_flow_before_rounding env edge_node_df mass_flow_substation_df all_nodes_df of
        Inl e \<Rightarrow> Inl e
      | Inr r \<Rightarrow> Inr (map np_round5 (fst r), snd r))"

text \<open>
  A network of one pipe from a plant to a consumer, and numerical routines that are exact on
  a network of one pipe (a system of one equation in one unknown), for the examples.
\<close>

definition exact_numerics :: numerics where
  "exact_numerics = \<lparr>find_loops = (\<lambda>df. []), lstsq = (\<lambda>A b. map2 (\<lambda>row v. v / hd row) A b),
     loop_correction = (\<lambda>df loops m. (m, []))\<rparr>"

definition one_pipe :: edge_node_frame where
  "one_pipe = \<lparr>index = [''NODE0'', ''NODE1''], columns = [''PIPE0''],
               values_of = [[- 1], [1]]\<rparr>"

definition plant_and_consumer :: "node list" where
  "plant_and_consumer = [\<lparr>Name = ''NODE0'', Type = ''PLANT'', Building = ''B0''\<rparr>,
                         \<lparr>Name = ''NODE1'', Type = ''CONSUMER'', Building = ''B1''\<rparr>]"

text \<open>Two pipes in a line, from a plant to a first and on to a second consumer.\<close>

definition two_pipes :: edge_node_frame where
  "two_pipes = \<lparr>index = [''NODE0'', ''NODE1'', ''NODE2''], columns = [''PIPE0'', ''PIPE1''],
                values_of = [[- 1, 0], [1, - 1], [0, 1]]\<rparr>"

definition plant_and_two_consumers :: "node list" where
  "plant_and_two_consumers =
     [\<lparr>Name = ''NODE0'', Type = ''PLANT'', Building = ''B0''\<rparr>,
      \<lparr>Name = ''NODE1'', Type = ''CONSUMER'', Building = ''B1''\<rparr>,
      \<lparr>Name = ''NODE2'', Type = ''CONSUMER'', Building = ''B2''\<rparr>]"

text \<open>Two correction passes for the examples: one that converges and one that never does.\<close>

definition halve :: "real list \<Rightarrow> real list \<times> real list" where
  "halve m = (map (\<lambda>x. x / 2) m, [])"

definition add_one :: "real list \<Rightarrow> real list \<times> real list" where
  "add_one m = (map (\<lambda>x. x + 1) m, [])"

section \<open>Direction normalisation: \<^verbatim>\<open>change_to_edge_node_matrix_t\<close>\<close>

text \<open>
  The flows of this function are numbers or NaN (\<open>None\<close>): the flows it gets from
  \<^verbatim>\<open>calc_mass_flow_edges\<close> can hold NaN (line 324 divides by a sum that can be zero), and
  its loop test depends on it. \<^verbatim>\<open>np.round\<close> keeps a NaN.
\<close>

text \<open>\<^verbatim>\<open>edge_mass_flow.min()\<close> of a non-empty array of numbers.\<close>

definition np_min :: "real list \<Rightarrow> real" where
  "np_min v = fold min (tl v) (hd v)"



text \<open>
  \<^verbatim>\<open>edge_node_df[label] = -edge_node_df[label]\<close> (line 564): pandas selects, and assigns to,
  every column that carries the label.
\<close>

definition negate_label :: "string \<Rightarrow> edge_node_frame \<Rightarrow> edge_node_frame" where
  "negate_label label df =
     df\<lparr>values_of := map (\<lambda>row. map2 (\<lambda>c v. if c = label then - v else v) (columns df) row)
                         (values_of df)\<rparr>"












section \<open>The plant temperature search of \<^verbatim>\<open>calc_supply_temperatures\<close>\<close>



text \<open>
  The loop of lines 1640-1642 (and 1669-1671) over the labels in \<^verbatim>\<open>node_insufficient\<close>:
  \<^verbatim>\<open>np.argwhere(edge_node_df.index == label)[0]\<close> is the first position of the label among the
  node names, \<^verbatim>\<open>IndexError\<close> when it is not among them, and the node temperature at that
  position becomes the target at that position plus 273.15.
\<close>

fun force_targets ::
  "string list \<Rightarrow> real option list \<Rightarrow> string list \<Rightarrow> real option list
     \<Rightarrow> error + real option list" where
  "force_targets idx t_target [] t_node = Inr t_node"
| "force_targets idx t_target (node # node_insufficient) t_node =
     (case find (\<lambda>p. idx ! p = node) [0..<length idx] of
        None \<Rightarrow> Inl IndexError
      | Some p \<Rightarrow>
          (if length t_target \<le> p \<or> length t_node \<le> p then Inl IndexError
           else force_targets idx t_target node_insufficient
                  (t_node[p := map_option (\<lambda>c. c + 273.15) (t_target ! p)])))"








text \<open>
  For the examples: a plant and one consumer that asks for 70 C; the consumer node is at
  the ground temperature of 283.15 K plus 40 % of the excess of the plant supply
  temperature over it.
\<close>

definition lossy_pass :: "real \<Rightarrow> real option list" where
  "lossy_pass t_plant_sup = [Some t_plant_sup, Some (2 * t_plant_sup / 5 + 169.89)]"

definition consumer_target :: "(string \<times> real option) list" where
  "consumer_target = [(''NODE0'', None), (''NODE1'', Some 70)]"

section \<open>Mixing at a node: \<^verbatim>\<open>calculate_outflow_temp\<close>\<close>








section \<open>Properties of the orchestrator's short circuit\<close>

lemma sum_abs_zero: "(\<forall>m \<in> set xs. m = (0::real)) \<Longrightarrow> sum_list (map abs xs) = 0"
  by (induction xs) auto

text \<open>
  Claim C9. For a timestep whose edge mass-flow vector is entirely zero,
  \<^verbatim>\<open>solve_network_temperatures\<close> does not call the full solver (the result is the same for
  every \<open>full_solver\<close>) and returns NaN for the supply and the return temperature of every
  node, zero heat loss for every edge, zero heat requirement for every plant, and the edge
  mass-flow vector it was given.
\<close>

theorem zero_flow_short_circuit:
  assumes "\<forall>m \<in> set edge_mass_flow_df. m = 0"
  shows "solve_network_temperatures full_solver edge_node_df all_nodes_df edge_mass_flow_df =
           Inr \<lparr>t_supply_nodes_2_k = replicate (length (index edge_node_df)) None,
                t_return_nodes_2_k = replicate (length (index edge_node_df)) None,
                plant_heat_requirement_kw =
                  replicate (length (filter (\<lambda>n. Type n = ''PLANT'') all_nodes_df)) (Some 0),
                edge_mass_flow_df_2_kgs = edge_mass_flow_df,
                q_loss_edges_2_kw = replicate (length (columns edge_node_df)) (Some 0)\<rparr>"
  using sum_abs_zero [OF assms]
  by (simp add: solve_network_temperatures_def shape0_def shape1_def number_of_plants_def)

theorem zero_flow_short_circuit_witness:
  "solve_network_temperatures (\<lambda>df ns fl. Inl ValueError)
     \<lparr>index = [''NODE0'', ''NODE1'', ''NODE2''], columns = [''PIPE0'', ''PIPE1''],
      values_of = [[-1, 0], [1, -1], [0, 1]]\<rparr>
     [\<lparr>Name = ''NODE0'', Type = ''PLANT'', Building = ''B0''\<rparr>,
      \<lparr>Name = ''NODE1'', Type = ''NONE'', Building = ''NONE''\<rparr>,
      \<lparr>Name = ''NODE2'', Type = ''CONSUMER'', Building = ''B1''\<rparr>]
     [0, 0] =
   Inr \<lparr>t_supply_nodes_2_k = [None, None, None],
        t_return_nodes_2_k = [None, None, None],
        plant_heat_requirement_kw = [Some 0],
        edge_mass_flow_df_2_kgs = [0, 0],
        q_loss_edges_2_kw = [Some 0, Some 0]\<rparr>"
proof -
  have h: "\<forall>m \<in> set [0, 0 :: real]. m = 0" by simp
  show ?thesis
    using h zero_flow_short_circuit [OF h, of "\<lambda>df ns fl. Inl ValueError"
      "\<lparr>index = [''NODE0'', ''NODE1'', ''NODE2''], columns = [''PIPE0'', ''PIPE1''],
        values_of = [[-1, 0], [1, -1], [0, 1]]\<rparr>"
      "[\<lparr>Name = ''NODE0'', Type = ''PLANT'', Building = ''B0''\<rparr>,
        \<lparr>Name = ''NODE1'', Type = ''NONE'', Building = ''NONE''\<rparr>,
        \<lparr>Name = ''NODE2'', Type = ''CONSUMER'', Building = ''B1''\<rparr>]"]
    by (simp add: numeral_2_eq_2 numeral_3_eq_3)
qed

section \<open>Properties of the pipe sizing\<close>

declare find_pipe.simps [simp del]

lemma find_pipe_drop:
  "i < length pipe_catalog \<Longrightarrow>
   find_pipe rho_60 pipe flow pipe_catalog i =
     Inr (case find (\<lambda>r. flow \<le> mdot_max_kgs rho_60 r) (drop i pipe_catalog) of
            Some r \<Rightarrow> (r, [])
          | None \<Rightarrow> (last pipe_catalog, [Requires_a_bigger_pipe pipe]))"
proof (induction rho_60 pipe flow pipe_catalog i rule: find_pipe.induct)
  case (1 rho_60 pipe flow pipe_catalog i)
  have d: "drop i pipe_catalog = pipe_catalog ! i # drop (Suc i) pipe_catalog"
    using "1.prems" by (simp add: Cons_nth_drop_Suc)
  show ?case
  proof (cases "flow \<le> mdot_max_kgs rho_60 (pipe_catalog ! i)")
    case True
    then show ?thesis using "1.prems" by (subst find_pipe.simps) (simp add: d)
  next
    case False
    show ?thesis
    proof (cases "i = length pipe_catalog - 1")
      case True
      then have "drop (Suc i) pipe_catalog = []" using "1.prems" by simp
      moreover have l: "pipe_catalog ! i = last pipe_catalog"
        using True "1.prems" by (metis last_conv_nth less_nat_zero_code list.size(3))
      ultimately have d': "drop i pipe_catalog = [last pipe_catalog]" using d by simp
      have "find_pipe rho_60 pipe flow pipe_catalog i =
              Inr (pipe_catalog ! i, [Requires_a_bigger_pipe pipe])"
        using False True "1.prems" by (subst find_pipe.simps) simp
      then show ?thesis
        using False l by (simp add: d')
    next
      case ne: False
      then have lt: "i + 1 < length pipe_catalog" using "1.prems" by simp
      have "find_pipe rho_60 pipe flow pipe_catalog i =
              find_pipe rho_60 pipe flow pipe_catalog (i + 1)"
        using False ne "1.prems" by (subst find_pipe.simps) simp
      also have "\<dots> =
          Inr (case find (\<lambda>r. flow \<le> mdot_max_kgs rho_60 r) (drop (i + 1) pipe_catalog) of
                 Some r \<Rightarrow> (r, [])
               | None \<Rightarrow> (last pipe_catalog, [Requires_a_bigger_pipe pipe]))"
        using "1.IH" False ne "1.prems" lt by simp
      finally show ?thesis using False by (simp add: d)
    qed
  qed
qed

lemma amax_abs_Max: "v \<noteq> [] \<Longrightarrow> amax_abs v = Max (abs ` set v)"
proof -
  assume "v \<noteq> []"
  then obtain x xs where v: "v = x # xs" by (cases v) auto
  have "amax_abs v = Max (set (map abs (x # xs)))"
    unfolding amax_abs_def v by (simp add: Max.set_eq_fold del: set_simps)
  then show ?thesis by (simp add: v)
qed

lemma assign_pipe_eq:
  assumes "pipe_catalog \<noteq> []" and "snd col \<noteq> []"
  shows "assign_pipe rho_60 pipe_catalog col =
           Inr (smallest_sufficient_pipe rho_60 (fst col) (Max (abs ` set (snd col))) pipe_catalog)"
  using assms
  by (simp add: assign_pipe_def amax_abs_Max find_pipe_drop smallest_sufficient_pipe_def)

lemma find_sorted_least:
  "sorted (map f xs) \<Longrightarrow> find (\<lambda>r. (a::real) \<le> f r) xs = Some r \<Longrightarrow> r' \<in> set xs
     \<Longrightarrow> a \<le> f r' \<Longrightarrow> f r \<le> f r'"
  by (induction xs) (auto split: if_splits)

lemma smallest_sufficient_pipe_least:
  assumes s: "sorted (map (mdot_max_kgs rho_60) pipe_catalog)"
    and r': "r' \<in> set pipe_catalog" "flow \<le> mdot_max_kgs rho_60 r'"
  shows "snd (smallest_sufficient_pipe rho_60 pipe flow pipe_catalog) = [] \<and>
         flow \<le> mdot_max_kgs rho_60 (fst (smallest_sufficient_pipe rho_60 pipe flow pipe_catalog)) \<and>
         mdot_max_kgs rho_60 (fst (smallest_sufficient_pipe rho_60 pipe flow pipe_catalog))
           \<le> mdot_max_kgs rho_60 r'"
proof -
  obtain r0 where f: "find (\<lambda>r. flow \<le> mdot_max_kgs rho_60 r) pipe_catalog = Some r0"
    using r' by (cases "find (\<lambda>r. flow \<le> mdot_max_kgs rho_60 r) pipe_catalog")
                (auto simp: find_None_iff)
  then have "flow \<le> mdot_max_kgs rho_60 r0" by (auto simp: find_Some_iff)
  then show ?thesis
    using find_sorted_least [OF s f r'] f by (simp add: smallest_sufficient_pipe_def)
qed

text \<open>
  Claim C7. In sizing mode, with a non-empty catalog and non-empty flow columns,
  \<^verbatim>\<open>assign_pipes_to_edges\<close> gives every edge the first catalog row whose maximum rated mass
  flow is at least the edge's maximum absolute flow, and the last row with a printed message
  (and no exception) when no row suffices. When the catalog is ordered by capacity and some
  row suffices, the row chosen suffices, has the smallest capacity among the rows that do,
  and nothing is printed.
\<close>

theorem sizing_selects_first_sufficient:
  assumes "pipe_catalog \<noteq> []" and "\<forall>col \<in> set mass_flow_df. snd col \<noteq> []"
  shows "assign_pipes_to_edges rho_60 pipe_catalog mass_flow_df =
           Inr (map (\<lambda>col. (fst col, fst (smallest_sufficient_pipe rho_60 (fst col)
                                             (Max (abs ` set (snd col))) pipe_catalog)))
                  mass_flow_df,
                concat (map (\<lambda>col. snd (smallest_sufficient_pipe rho_60 (fst col)
                                            (Max (abs ` set (snd col))) pipe_catalog))
                  mass_flow_df))
         \<and> (\<forall>col \<in> set mass_flow_df. \<forall>r' \<in> set pipe_catalog.
               sorted (map (mdot_max_kgs rho_60) pipe_catalog)
               \<and> Max (abs ` set (snd col)) \<le> mdot_max_kgs rho_60 r'
               \<longrightarrow> snd (smallest_sufficient_pipe rho_60 (fst col)
                          (Max (abs ` set (snd col))) pipe_catalog) = []
                 \<and> Max (abs ` set (snd col))
                     \<le> mdot_max_kgs rho_60 (fst (smallest_sufficient_pipe rho_60 (fst col)
                          (Max (abs ` set (snd col))) pipe_catalog))
                 \<and> mdot_max_kgs rho_60 (fst (smallest_sufficient_pipe rho_60 (fst col)
                          (Max (abs ` set (snd col))) pipe_catalog))
                     \<le> mdot_max_kgs rho_60 r')"
proof
  show "assign_pipes_to_edges rho_60 pipe_catalog mass_flow_df =
           Inr (map (\<lambda>col. (fst col, fst (smallest_sufficient_pipe rho_60 (fst col)
                                             (Max (abs ` set (snd col))) pipe_catalog)))
                  mass_flow_df,
                concat (map (\<lambda>col. snd (smallest_sufficient_pipe rho_60 (fst col)
                                            (Max (abs ` set (snd col))) pipe_catalog))
                  mass_flow_df))"
    using assms(2)
  proof (induction mass_flow_df)
    case Nil
    then show ?case by simp
  next
    case (Cons col cols)
    then show ?case
      using assign_pipe_eq [OF assms(1), of col rho_60]
      by (simp add: case_prod_beta split: prod.splits)
  qed
next
  show "\<forall>col \<in> set mass_flow_df. \<forall>r' \<in> set pipe_catalog.
               sorted (map (mdot_max_kgs rho_60) pipe_catalog)
               \<and> Max (abs ` set (snd col)) \<le> mdot_max_kgs rho_60 r'
               \<longrightarrow> snd (smallest_sufficient_pipe rho_60 (fst col)
                          (Max (abs ` set (snd col))) pipe_catalog) = []
                 \<and> Max (abs ` set (snd col))
                     \<le> mdot_max_kgs rho_60 (fst (smallest_sufficient_pipe rho_60 (fst col)
                          (Max (abs ` set (snd col))) pipe_catalog))
                 \<and> mdot_max_kgs rho_60 (fst (smallest_sufficient_pipe rho_60 (fst col)
                          (Max (abs ` set (snd col))) pipe_catalog))
                     \<le> mdot_max_kgs rho_60 r'"
    using smallest_sufficient_pipe_least by blast
qed

theorem sizing_selects_first_sufficient_witness:
  "[DN20, DN25] \<noteq> [] \<and>
   assign_pipes_to_edges 1000 [DN20, DN25] [(''PIPE0'', [0.5, -1.5]), (''PIPE1'', [3])] =
     Inr ([(''PIPE0'', DN25), (''PIPE1'', DN25)], [Requires_a_bigger_pipe ''PIPE1''])"
proof -
  have h1: "[DN20, DN25] \<noteq> []" by simp
  have h2: "\<forall>col \<in> set [(''PIPE0'', [0.5, -1.5 :: real]), (''PIPE1'', [3])]. snd col \<noteq> []"
    by simp
  show ?thesis
    using h1 h2 sizing_selects_first_sufficient [OF h1 h2, of 1000]
    by (simp add: smallest_sufficient_pipe_def mdot_max_kgs_def DN20_def DN25_def)
qed

section \<open>Properties of the node demands\<close>

lemma write_rows_fold:
  "\<forall>n \<in> set rows. Type n = ''CONSUMER'' \<longrightarrow> df_value (Building n) \<noteq> None \<Longrightarrow>
   write_rows df_value (Some pm) rows nodes_df =
     Inr (fold (\<lambda>row cols. set_column cols (Name row)
                  (Some (if Type row = ''CONSUMER'' then the (df_value (Building row))
                         else if Type row = ''PLANT'' then - pm else 0)))
            rows nodes_df)"
proof (induction rows arbitrary: nodes_df)
  case Nil
  then show ?case by simp
next
  case (Cons r rs)
  then have ih: "\<And>cols. write_rows df_value (Some pm) rs cols =
     Inr (fold (\<lambda>row cols. set_column cols (Name row)
                  (Some (if Type row = ''CONSUMER'' then the (df_value (Building row))
                         else if Type row = ''PLANT'' then - pm else 0)))
            rs cols)" by simp
  show ?case
  proof (cases "Type r = ''CONSUMER''")
    case True
    then obtain v where "df_value (Building r) = Some v" using Cons.prems by auto
    then show ?thesis using True by (simp add: ih)
  next
    case False
    then show ?thesis by (simp add: ih)
  qed
qed

lemma set_column_alt:
  "set_column nodes_df label v = map (\<lambda>p. (fst p, if fst p = label then v else snd p)) nodes_df"
  unfolding set_column_def by (rule map_cong) (auto simp: case_prod_beta)

lemma fold_set_column:
  fixes rows :: "node list"
  shows "distinct (map Name rows) \<Longrightarrow>
   fold (\<lambda>row cols. set_column cols (Name row) (f row)) rows nodes_df =
     map (\<lambda>p. (fst p, case find (\<lambda>r. Name r = fst p) rows of Some r \<Rightarrow> f r | None \<Rightarrow> snd p))
       nodes_df"
proof (induction rows arbitrary: nodes_df)
  case Nil
  then show ?case by simp
next
  case (Cons r rs)
  have nf: "find (\<lambda>x. Name x = Name r) rs = None"
    unfolding find_None_iff
  proof (intro notI, elim exE conjE)
    fix x assume x: "x \<in> set rs" and n: "Name x = Name r"
    have "Name r \<in> Name ` set rs" by (rule rev_image_eqI [where f = Name, OF x sym [OF n]])
    then show False using Cons.prems by simp
  qed
  have d: "distinct (map Name rs)" using Cons.prems by simp
  have "fold (\<lambda>row cols. set_column cols (Name row) (f row)) (r # rs) nodes_df =
        fold (\<lambda>row cols. set_column cols (Name row) (f row)) rs (set_column nodes_df (Name r) (f r))"
    by simp
  also have "\<dots> = map (\<lambda>p. (fst p, case find (\<lambda>r. Name r = fst p) rs of
                                       Some r \<Rightarrow> f r | None \<Rightarrow> snd p))
                      (set_column nodes_df (Name r) (f r))"
    by (rule Cons.IH [OF d])
  also have "\<dots> = map (\<lambda>p. (fst p, case find (\<lambda>r'. Name r' = fst p) (r # rs) of
                                       Some r' \<Rightarrow> f r' | None \<Rightarrow> snd p)) nodes_df"
    unfolding set_column_alt map_map
  proof (rule map_cong [OF refl])
    fix p :: "string \<times> real option"
    show "((\<lambda>p. (fst p, case find (\<lambda>r. Name r = fst p) rs of Some r \<Rightarrow> f r | None \<Rightarrow> snd p)) \<circ>
           (\<lambda>p. (fst p, if fst p = Name r then f r else snd p))) p =
          (fst p, case find (\<lambda>r'. Name r' = fst p) (r # rs) of Some r' \<Rightarrow> f r' | None \<Rightarrow> snd p)"
    proof (cases "fst p = Name r")
      case True
      then show ?thesis by (simp add: nf split: option.splits)
    next
      case False
      then have "Name r \<noteq> fst p" by (rule not_sym)
      then show ?thesis using False by (simp split: option.splits)
    qed
  qed
  finally show ?case .
qed

lemma find_distinct_Name:
  fixes rows :: "node list"
  shows "distinct (map Name rows) \<Longrightarrow> n \<in> set rows \<Longrightarrow>
    find (\<lambda>r. Name r = Name n) rows = Some n"
proof (induction rows)
  case Nil
  then show ?case by simp
next
  case (Cons r rs)
  show ?case
  proof (cases "n = r")
    case True
    then show ?thesis by simp
  next
    case False
    then have m: "n \<in> set rs" using Cons.prems by simp
    then have "Name n \<in> Name ` set rs" by (rule imageI)
    then have "Name r \<noteq> Name n" using Cons.prems by auto
    then show ?thesis using Cons.IH m Cons.prems by simp
  qed
qed

lemma sum_split_roles:
  "(\<And>n. \<not> (P n \<and> Q n)) \<Longrightarrow>
   (\<Sum>n \<leftarrow> rows. if P n then g n else if Q n then - pm else (0::real)) =
     (\<Sum>n \<leftarrow> filter P rows. g n) - real (length (filter Q rows)) * pm"
proof (induction rows)
  case Nil
  then show ?case by simp
next
  case (Cons r rs)
  then show ?case by (cases "P r"; cases "Q r") (simp_all add: algebra_simps)
qed

text \<open>
  Claim C2. For node names that are pairwise distinct, at least one PLANT node, and a
  mass flow for the building of every CONSUMER node, \<^verbatim>\<open>write_substation_values_to_nodes_df\<close>
  returns normally; every CONSUMER node carries its building's flow, each of the \<open>p\<close> PLANT
  nodes carries minus the total consumer flow divided by \<open>p\<close>, every other node carries
  zero, and the demands of all nodes sum to zero.
\<close>

theorem node_demands_balance:
  assumes d: "distinct (map Name all_nodes_df)"
    and p: "\<exists>n \<in> set all_nodes_df. Type n = ''PLANT''"
    and b: "\<forall>n \<in> set all_nodes_df. Type n = ''CONSUMER'' \<longrightarrow> Building n \<in> dom df_value"
  shows "write_substation_values_to_nodes_df all_nodes_df df_value =
           Inr (map (\<lambda>n. (Name n, Some (node_demand all_nodes_df df_value n))) all_nodes_df)
         \<and> (\<Sum>n \<leftarrow> all_nodes_df. node_demand all_nodes_df df_value n) = 0"
proof
  have p0: "number_of_plants all_nodes_df \<noteq> 0"
    using p by (auto simp: number_of_plants_def filter_empty_conv)
  have nex: "\<not> list_ex (\<lambda>b. df_value b = None)
               (map Building (filter (\<lambda>n. Type n = ''CONSUMER'') all_nodes_df))"
    using b by (auto simp: list_ex_iff)
  have b': "\<forall>n \<in> set all_nodes_df. Type n = ''CONSUMER'' \<longrightarrow> df_value (Building n) \<noteq> None"
    using b by auto
  have tot: "sum_list (map (\<lambda>b. the (df_value b))
               (map Building (filter (\<lambda>n. Type n = ''CONSUMER'') all_nodes_df))) =
             total_consumer_flow all_nodes_df df_value"
    by (simp add: total_consumer_flow_def comp_def)
  let ?pm = "total_consumer_flow all_nodes_df df_value / real (number_of_plants all_nodes_df)"
  let ?f = "\<lambda>row. Some (if Type row = ''CONSUMER'' then the (df_value (Building row))
                         else if Type row = ''PLANT'' then - ?pm else 0)"
  have "write_substation_values_to_nodes_df all_nodes_df df_value =
          write_rows df_value (Some ?pm) all_nodes_df (map (\<lambda>n. (Name n, None)) all_nodes_df)"
    using p0 nex tot by (simp add: write_substation_values_to_nodes_df_def Let_def)
  also have "\<dots> = Inr (fold (\<lambda>row cols. set_column cols (Name row) (?f row)) all_nodes_df
                          (map (\<lambda>n. (Name n, None)) all_nodes_df))"
    by (rule write_rows_fold [OF b'])
  also have "fold (\<lambda>row cols. set_column cols (Name row) (?f row)) all_nodes_df
               (map (\<lambda>n. (Name n, None)) all_nodes_df) =
             map (\<lambda>p. (fst p, case find (\<lambda>r. Name r = fst p) all_nodes_df of
                                 Some r \<Rightarrow> ?f r | None \<Rightarrow> snd p))
               (map (\<lambda>n. (Name n, None)) all_nodes_df)"
    by (rule fold_set_column [OF d])
  also have "\<dots> = map (\<lambda>n. (Name n, Some (node_demand all_nodes_df df_value n))) all_nodes_df"
    unfolding map_map
  proof (rule map_cong [OF refl])
    fix n assume "n \<in> set all_nodes_df"
    then have "find (\<lambda>r. Name r = Name n) all_nodes_df = Some n"
      by (rule find_distinct_Name [OF d])
    then show "((\<lambda>p. (fst p, case find (\<lambda>r. Name r = fst p) all_nodes_df of
                                 Some r \<Rightarrow> ?f r | None \<Rightarrow> snd p)) \<circ> (\<lambda>n. (Name n, None))) n =
               (Name n, Some (node_demand all_nodes_df df_value n))"
      by (simp add: node_demand_def)
  qed
  finally show "write_substation_values_to_nodes_df all_nodes_df df_value =
           Inr (map (\<lambda>n. (Name n, Some (node_demand all_nodes_df df_value n))) all_nodes_df)" .
  have ex: "\<not> (Type n = ''CONSUMER'' \<and> Type n = ''PLANT'')" for n :: node by auto
  have "(\<Sum>n \<leftarrow> all_nodes_df. node_demand all_nodes_df df_value n) =
        total_consumer_flow all_nodes_df df_value - real (number_of_plants all_nodes_df) * ?pm"
    unfolding node_demand_def [abs_def] total_consumer_flow_def number_of_plants_def
    by (rule sum_split_roles [OF ex])
  then show "(\<Sum>n \<leftarrow> all_nodes_df. node_demand all_nodes_df df_value n) = 0"
    using p0 by simp
qed


theorem node_demands_balance_witness:
  "distinct (map Name
     [\<lparr>Name = ''NODE0'', Type = ''PLANT'', Building = ''B0''\<rparr>,
      \<lparr>Name = ''NODE1'', Type = ''NONE'', Building = ''NONE''\<rparr>,
      \<lparr>Name = ''NODE2'', Type = ''CONSUMER'', Building = ''B1''\<rparr>,
      \<lparr>Name = ''NODE3'', Type = ''CONSUMER'', Building = ''B2''\<rparr>]) \<and>
   write_substation_values_to_nodes_df
     [\<lparr>Name = ''NODE0'', Type = ''PLANT'', Building = ''B0''\<rparr>,
      \<lparr>Name = ''NODE1'', Type = ''NONE'', Building = ''NONE''\<rparr>,
      \<lparr>Name = ''NODE2'', Type = ''CONSUMER'', Building = ''B1''\<rparr>,
      \<lparr>Name = ''NODE3'', Type = ''CONSUMER'', Building = ''B2''\<rparr>]
     [''B1'' \<mapsto> 2, ''B2'' \<mapsto> 3] =
   Inr [(''NODE0'', Some (- 5)), (''NODE1'', Some 0), (''NODE2'', Some 2), (''NODE3'', Some 3)]"
proof -
  let ?ns = "[\<lparr>Name = ''NODE0'', Type = ''PLANT'', Building = ''B0''\<rparr>,
      \<lparr>Name = ''NODE1'', Type = ''NONE'', Building = ''NONE''\<rparr>,
      \<lparr>Name = ''NODE2'', Type = ''CONSUMER'', Building = ''B1''\<rparr>,
      \<lparr>Name = ''NODE3'', Type = ''CONSUMER'', Building = ''B2''\<rparr>]"
  let ?df = "[''B1'' \<mapsto> 2, ''B2'' \<mapsto> 3 :: real]"
  have d: "distinct (map Name ?ns)" by simp
  have p: "\<exists>n \<in> set ?ns. Type n = ''PLANT''" by simp
  have b: "\<forall>n \<in> set ?ns. Type n = ''CONSUMER'' \<longrightarrow> Building n \<in> dom ?df" by simp
  show ?thesis
    using d node_demands_balance [OF d p b]
    by (simp add: node_demand_def total_consumer_flow_def number_of_plants_def)
qed

section \<open>Properties of the incidence matrix\<close>

lemma column_edge_node_matrix:
  "j < length edge_df \<Longrightarrow>
   column j (edge_node_matrix list_nodes edge_df) =
     map (\<lambda>n. edge_node_entry n (edge_df ! j)) list_nodes"
  by (simp add: column_def edge_node_matrix_def)

lemma count_entries_plus:
  "count_list (map (\<lambda>n. edge_node_entry n e) list_nodes) 1 = count_list list_nodes (NODE2 e)"
  by (induction list_nodes) (auto simp: edge_node_entry_def)

lemma count_entries_minus:
  "count_list (map (\<lambda>n. edge_node_entry n e) list_nodes) (- 1) =
     (if NODE1 e = NODE2 e then 0 else count_list list_nodes (NODE1 e))"
  by (induction list_nodes) (auto simp: edge_node_entry_def)

lemma count_list_distinct: "distinct xs \<Longrightarrow> x \<in> set xs \<Longrightarrow> count_list xs x = 1"
  by (induction xs) (auto simp: count_list_0_iff)

lemma edge_node_matrix_entry:
  "i < length list_nodes \<Longrightarrow> j < length edge_df \<Longrightarrow>
     edge_node_matrix list_nodes edge_df ! i ! j = edge_node_entry (list_nodes ! i) (edge_df ! j)"
  by (simp add: edge_node_matrix_def)

lemma incidence_placement:
  fixes list_nodes :: "string list" and edge_df :: "edge_row list"
  assumes d: "distinct list_nodes" and j: "j < length edge_df"
    and n1: "NODE1 (edge_df ! j) \<in> set list_nodes" and n2: "NODE2 (edge_df ! j) \<in> set list_nodes"
    and ne: "NODE1 (edge_df ! j) \<noteq> NODE2 (edge_df ! j)"
  shows "\<exists>p q. p < length list_nodes \<and> q < length list_nodes
           \<and> list_nodes ! p = NODE2 (edge_df ! j) \<and> list_nodes ! q = NODE1 (edge_df ! j)
           \<and> (\<forall>i < length list_nodes.
                 edge_node_matrix list_nodes edge_df ! i ! j =
                   (if i = p then 1 else if i = q then - 1 else 0))"
proof -
  define s where "s = NODE1 (edge_df ! j)"
  define e where "e = NODE2 (edge_df ! j)"
  have se: "s \<noteq> e" using ne by (simp add: s_def e_def)
  have "e \<in> set list_nodes" using n2 by (simp add: e_def)
  then obtain p where p: "p < length list_nodes" "list_nodes ! p = e"
    unfolding in_set_conv_nth by blast
  have "s \<in> set list_nodes" using n1 by (simp add: s_def)
  then obtain q where q: "q < length list_nodes" "list_nodes ! q = s"
    unfolding in_set_conv_nth by blast
  have en: "edge_node_entry n (edge_df ! j) = (if e = n then 1 else if s = n then - 1 else 0)"
    for n
    by (simp add: edge_node_entry_def s_def e_def)
  have "edge_node_matrix list_nodes edge_df ! i ! j = (if i = p then 1 else if i = q then - 1 else 0)"
    if i: "i < length list_nodes" for i
  proof -
    have 1: "list_nodes ! i = e \<longleftrightarrow> i = p"
      using nth_eq_iff_index_eq [OF d i p(1)] p(2) by simp
    have 2: "list_nodes ! i = s \<longleftrightarrow> i = q"
      using nth_eq_iff_index_eq [OF d i q(1)] q(2) by simp
    have "edge_node_matrix list_nodes edge_df ! i ! j =
            (if e = list_nodes ! i then 1 else if s = list_nodes ! i then - 1 else 0)"
      by (simp only: edge_node_matrix_entry [OF i j] en)
    also have "\<dots> = (if i = p then 1 else if i = q then - 1 else 0)"
      using 1 2 by (simp add: eq_commute)
    finally show ?thesis .
  qed
  then have "p < length list_nodes \<and> q < length list_nodes
           \<and> list_nodes ! p = e \<and> list_nodes ! q = s
           \<and> (\<forall>i < length list_nodes.
                 edge_node_matrix list_nodes edge_df ! i ! j =
                   (if i = p then 1 else if i = q then - 1 else 0))"
    using p q by simp
  then show ?thesis unfolding s_def e_def by (intro exI)
qed

text \<open>
  Claim C8, as amended. When the node names are pairwise distinct, the column that
  \<^verbatim>\<open>get_thermal_network_from_csv\<close> gives an edge whose start and end node names both occur
  among the node names and differ has +1 in the row of its end node, -1 in the row of its
  start node and 0 in every other row, so exactly one +1 and exactly one -1. The
  construction checks no column: whatever the input, the column of an edge has as many
  entries +1 as there are nodes named like its end node, and as many entries -1 as there
  are nodes named like its start node, or none when its start node is its end node. The
  first edge-node matrix of \<^verbatim>\<open>get_thermal_network_from_shapefile\<close> is the same matrix;
  before building it that reader raises \<^verbatim>\<open>ValueError\<close> exactly when a node name or a pipe
  name is duplicated.
\<close>

theorem incidence_column_of_well_formed_edge:
  fixes list_nodes :: "string list" and edge_df :: "edge_row list"
  assumes j: "j < length edge_df"
  shows "(distinct list_nodes \<and> NODE1 (edge_df ! j) \<in> set list_nodes
            \<and> NODE2 (edge_df ! j) \<in> set list_nodes \<and> NODE1 (edge_df ! j) \<noteq> NODE2 (edge_df ! j)
          \<longrightarrow> (\<exists>p q. p < length list_nodes \<and> q < length list_nodes
                 \<and> list_nodes ! p = NODE2 (edge_df ! j) \<and> list_nodes ! q = NODE1 (edge_df ! j)
                 \<and> (\<forall>i < length list_nodes.
                       values_of (get_thermal_network_from_csv list_nodes list_edges edge_df) ! i ! j =
                         (if i = p then 1 else if i = q then - 1 else 0)))
            \<and> count_list (column j (values_of
                 (get_thermal_network_from_csv list_nodes list_edges edge_df))) 1 = 1
            \<and> count_list (column j (values_of
                 (get_thermal_network_from_csv list_nodes list_edges edge_df))) (- 1) = 1)
         \<and> count_list (column j (values_of
              (get_thermal_network_from_csv list_nodes list_edges edge_df))) 1 =
             count_list list_nodes (NODE2 (edge_df ! j))
         \<and> count_list (column j (values_of
              (get_thermal_network_from_csv list_nodes list_edges edge_df))) (- 1) =
             (if NODE1 (edge_df ! j) = NODE2 (edge_df ! j) then 0
              else count_list list_nodes (NODE1 (edge_df ! j)))
         \<and> first_edge_node_matrix list_nodes list_edges edge_df =
             (if distinct list_nodes \<and> distinct list_edges
              then Inr (get_thermal_network_from_csv list_nodes list_edges edge_df)
              else Inl ValueError)"
proof -
  have v: "values_of (get_thermal_network_from_csv list_nodes list_edges edge_df) =
           edge_node_matrix list_nodes edge_df"
    by (simp add: get_thermal_network_from_csv_def)
  have c1: "count_list (column j (edge_node_matrix list_nodes edge_df)) 1 =
             count_list list_nodes (NODE2 (edge_df ! j))"
    using j by (simp add: column_edge_node_matrix count_entries_plus)
  have c2: "count_list (column j (edge_node_matrix list_nodes edge_df)) (- 1) =
             (if NODE1 (edge_df ! j) = NODE2 (edge_df ! j) then 0
              else count_list list_nodes (NODE1 (edge_df ! j)))"
    using j by (simp add: column_edge_node_matrix count_entries_minus)
  have f: "first_edge_node_matrix list_nodes list_edges edge_df =
             (if distinct list_nodes \<and> distinct list_edges
              then Inr (get_thermal_network_from_csv list_nodes list_edges edge_df)
              else Inl ValueError)"
    by (simp add: first_edge_node_matrix_def get_thermal_network_from_csv_def)
  have w: "(\<exists>p q. p < length list_nodes \<and> q < length list_nodes
                 \<and> list_nodes ! p = NODE2 (edge_df ! j) \<and> list_nodes ! q = NODE1 (edge_df ! j)
                 \<and> (\<forall>i < length list_nodes.
                       edge_node_matrix list_nodes edge_df ! i ! j =
                         (if i = p then 1 else if i = q then - 1 else 0)))
            \<and> count_list (column j (edge_node_matrix list_nodes edge_df)) 1 = 1
            \<and> count_list (column j (edge_node_matrix list_nodes edge_df)) (- 1) = 1"
    if a: "distinct list_nodes \<and> NODE1 (edge_df ! j) \<in> set list_nodes
            \<and> NODE2 (edge_df ! j) \<in> set list_nodes \<and> NODE1 (edge_df ! j) \<noteq> NODE2 (edge_df ! j)"
  proof -
    from a have d: "distinct list_nodes" and n1: "NODE1 (edge_df ! j) \<in> set list_nodes"
      and n2: "NODE2 (edge_df ! j) \<in> set list_nodes"
      and ne: "NODE1 (edge_df ! j) \<noteq> NODE2 (edge_df ! j)"
      by simp_all
    note incidence_placement [OF d j n1 n2 ne]
    moreover have "count_list (column j (edge_node_matrix list_nodes edge_df)) 1 = 1"
      unfolding c1 using d n2 by (rule count_list_distinct)
    moreover have "count_list list_nodes (NODE1 (edge_df ! j)) = 1"
      using d n1 by (rule count_list_distinct)
    then have "count_list (column j (edge_node_matrix list_nodes edge_df)) (- 1) = 1"
      unfolding c2 using ne by simp
    ultimately show ?thesis by (intro conjI)
  qed
  show ?thesis
    unfolding v by (rule conjI [OF impI [OF w] conjI [OF c1 conjI [OF c2 f]]])
qed

text \<open>An edge from J0 to J1 among the nodes J0, J1, J2.\<close>

theorem incidence_column_of_well_formed_edge_witness:
  "values_of (get_thermal_network_from_csv [''J0'', ''J1'', ''J2''] [''PIPE0'']
     [\<lparr>NODE1 = ''J0'', NODE2 = ''J1'', pipe_length = 100\<rparr>]) = [[- 1], [1], [0]] \<and>
   count_list (column 0 (values_of (get_thermal_network_from_csv [''J0'', ''J1'', ''J2''] [''PIPE0'']
       [\<lparr>NODE1 = ''J0'', NODE2 = ''J1'', pipe_length = 100\<rparr>]))) 1 = 1 \<and>
   count_list (column 0 (values_of (get_thermal_network_from_csv [''J0'', ''J1'', ''J2''] [''PIPE0'']
       [\<lparr>NODE1 = ''J0'', NODE2 = ''J1'', pipe_length = 100\<rparr>]))) (- 1) = 1 \<and>
   first_edge_node_matrix [''J0'', ''J1'', ''J2''] [''PIPE0'']
     [\<lparr>NODE1 = ''J0'', NODE2 = ''J1'', pipe_length = 100\<rparr>] =
     Inr \<lparr>index = [''J0'', ''J1'', ''J2''], columns = [''PIPE0''],
          values_of = [[- 1], [1], [0]]\<rparr>"
proof -
  have h: "(0::nat) < length [\<lparr>NODE1 = ''J0'', NODE2 = ''J1'', pipe_length = 100\<rparr>]" by simp
  show ?thesis
    using incidence_column_of_well_formed_edge [OF h, of "[''J0'', ''J1'', ''J2'']" "[''PIPE0'']"]
    by (simp add: get_thermal_network_from_csv_def edge_node_matrix_def edge_node_entry_def)
qed

text \<open>
  The claim as stated fails for \<^verbatim>\<open>get_thermal_network_from_csv\<close>: an edge that starts and
  ends at the same node, and an edge whose end node is no node of the network, get a column
  without an entry -1, respectively +1, and the frame is returned, not an error.
\<close>

theorem incidence_malformed_counterexample:
  "get_thermal_network_from_csv [''J0'', ''J1''] [''PIPE0'']
     [\<lparr>NODE1 = ''J0'', NODE2 = ''J0'', pipe_length = 100\<rparr>]
     = \<lparr>index = [''J0'', ''J1''], columns = [''PIPE0''], values_of = [[1], [0]]\<rparr> \<and>
   count_list (column 0 (values_of (get_thermal_network_from_csv [''J0'', ''J1''] [''PIPE0'']
       [\<lparr>NODE1 = ''J0'', NODE2 = ''J0'', pipe_length = 100\<rparr>]))) (- 1) \<noteq> 1 \<and>
   get_thermal_network_from_csv [''J0'', ''J1''] [''PIPE0'']
     [\<lparr>NODE1 = ''J0'', NODE2 = ''J9'', pipe_length = 100\<rparr>]
     = \<lparr>index = [''J0'', ''J1''], columns = [''PIPE0''], values_of = [[- 1], [0]]\<rparr> \<and>
   count_list (column 0 (values_of (get_thermal_network_from_csv [''J0'', ''J1''] [''PIPE0'']
       [\<lparr>NODE1 = ''J0'', NODE2 = ''J9'', pipe_length = 100\<rparr>]))) 1 \<noteq> 1"
  by (simp add: get_thermal_network_from_csv_def edge_node_matrix_def edge_node_entry_def
                column_def)

section \<open>Properties of the hydraulic solver\<close>

subsection \<open>The linear solver\<close>

declare solve_rows.simps [simp del]

lemma find_pivot_Some:
  assumes "find_pivot rows = Some (p, rest)"
  shows "hd (fst p) \<noteq> 0 \<and> set rows = insert p (set rest) \<and> length rest + 1 = length rows"
  using assms
  by (induction rows arbitrary: p rest) (auto split: if_splits option.splits)

lemma find_pivot_None: "find_pivot rows = None \<Longrightarrow> \<forall>r \<in> set rows. hd (fst r) = 0"
  by (induction rows) (auto split: if_splits option.splits)

lemma dot_Cons: "dot (a # r) (x # xs) = a * x + dot r xs"
  by (simp add: dot_def)

lemma dot_reduced:
  assumes "length r = length p"
  shows "dot (map2 (\<lambda>a q. a - c * q) r p) x = dot r x - c * dot p x"
  using assms
proof (induction r p arbitrary: x rule: list_induct2)
  case Nil
  then show ?case by (simp add: dot_def)
next
  case (Cons a r q p)
  show ?case
  proof (cases x)
    case Nil
    then show ?thesis by (simp add: dot_def)
  next
    case (Cons y ys)
    then show ?thesis using Cons.IH [of ys] by (simp add: dot_Cons algebra_simps)
  qed
qed

lemma solve_rows_sound:
  assumes "solve_rows rows = Inr x" and "\<forall>r \<in> set rows. length (fst r) = length rows"
  shows "length x = length rows \<and> (\<forall>r \<in> set rows. dot (fst r) x = snd r)"
  using assms
proof (induction "length rows" arbitrary: rows x)
  case 0
  then show ?case by (simp add: solve_rows.simps)
next
  case (Suc n)
  then have ne: "rows \<noteq> []" by auto
  from Suc.prems(1) ne obtain p rest where pv: "find_pivot rows = Some (p, rest)"
    by (subst (asm) solve_rows.simps) (auto split: option.splits)
  from find_pivot_Some [OF pv] have ph: "hd (fst p) \<noteq> 0"
    and rs: "set rows = insert p (set rest)" and lr: "length rest + 1 = length rows"
    by simp_all
  from Suc.prems(1) ne pv obtain xt where
    xt: "solve_rows (map (reduce_row p) rest) = Inr xt"
    and x: "x = (snd p - dot (tl (fst p)) xt) / hd (fst p) # xt"
    by (subst (asm) solve_rows.simps) (auto split: sum.splits)
  have len: "length (fst r) = Suc (length rest)" if "r \<in> set rows" for r
    using Suc.prems(2) that lr by simp
  have n: "n = length (map (reduce_row p) rest)" using Suc.hyps(2) lr by simp
  have "\<forall>r \<in> set (map (reduce_row p) rest). length (fst r) = length (map (reduce_row p) rest)"
  proof
    fix r
    assume "r \<in> set (map (reduce_row p) rest)"
    then obtain r' where r': "r' \<in> set rest" "r = reduce_row p r'" by auto
    have "length (fst r') = Suc (length rest)" "length (fst p) = Suc (length rest)"
      using len r'(1) rs by simp_all
    then show "length (fst r) = length (map (reduce_row p) rest)"
      by (simp add: r'(2) reduce_row_def)
  qed
  from Suc.hyps(1) [OF n xt this] have lx: "length xt = length rest"
    and ih: "\<forall>r \<in> set rest. dot (fst (reduce_row p r)) xt = snd (reduce_row p r)"
    by simp_all
  have eq: "dot (fst r) x = hd (fst r) * ((snd p - dot (tl (fst p)) xt) / hd (fst p))
              + dot (tl (fst r)) xt" if "r \<in> set rows" for r
  proof -
    from len [OF that] obtain a rt where "fst r = a # rt" by (cases "fst r") auto
    then show ?thesis by (simp add: x dot_Cons)
  qed
  have "dot (fst r) x = snd r" if r: "r \<in> set rows" for r
  proof (cases "r = p")
    case True
    then show ?thesis using eq [OF r] ph by simp
  next
    case False
    then have rr: "r \<in> set rest" using r rs by auto
    have "length (tl (fst r)) = length (tl (fst p))"
      using len [OF r] len [of p] rs by simp
    from dot_reduced [OF this, of "hd (fst r) / hd (fst p)" xt]
    have "dot (fst (reduce_row p r)) xt =
            dot (tl (fst r)) xt - hd (fst r) / hd (fst p) * dot (tl (fst p)) xt"
      by (simp add: reduce_row_def)
    moreover have "dot (fst (reduce_row p r)) xt = snd r - hd (fst r) / hd (fst p) * snd p"
      using ih rr by (simp add: reduce_row_def)
    ultimately have "dot (tl (fst r)) xt =
        snd r - hd (fst r) / hd (fst p) * snd p + hd (fst r) / hd (fst p) * dot (tl (fst p)) xt"
      by simp
    then show ?thesis using eq [OF r] ph by (simp add: field_simps)
  qed
  then show ?case using lx lr by (simp add: x)
qed

lemma np_linalg_solve_sound:
  assumes "np_linalg_solve n A b = Inr x"
  shows "length x = n \<and> length A = n \<and> length b = n \<and> mat_vec A x = b"
proof -
  from assms have l: "length A = n" "length b = n" and rows: "\<forall>row \<in> set A. length row = n"
    and s: "solve_rows (zip A b) = Inr x"
    by (auto simp: np_linalg_solve_def list_all_iff split: if_splits)
  have "\<forall>r \<in> set (zip A b). length (fst r) = length (zip A b)"
    using l rows by (auto dest: set_zip_leftD)
  from solve_rows_sound [OF s this] have lx: "length x = n"
    and d: "\<forall>r \<in> set (zip A b). dot (fst r) x = snd r"
    using l by simp_all
  have "mat_vec A x = b"
  proof (rule nth_equalityI)
    show "length (mat_vec A x) = length b" using l by (simp add: mat_vec_def)
  next
    fix k
    assume "k < length (mat_vec A x)"
    then have k: "k < n" using l by (simp add: mat_vec_def)
    then have "(A ! k, b ! k) \<in> set (zip A b)" using l by (auto simp: set_zip)
    then have "dot (A ! k) x = b ! k" using d by auto
    then show "mat_vec A x ! k = b ! k" using k l by (simp add: mat_vec_def)
  qed
  then show ?thesis using lx l by simp
qed

lemma dot_zeros: "dot r (replicate k 0) = 0"
proof (induction r arbitrary: k)
  case Nil
  then show ?case by (simp add: dot_def)
next
  case (Cons a r)
  then show ?case by (cases k) (simp_all add: dot_def)
qed

lemma solve_rows_singular:
  assumes "solve_rows rows = Inl e" and "\<forall>r \<in> set rows. length (fst r) = length rows"
  shows "e = LinAlgError \<and>
         (\<exists>x. length x = length rows \<and> (\<exists>v \<in> set x. v \<noteq> 0) \<and> (\<forall>r \<in> set rows. dot (fst r) x = 0))"
  using assms
proof (induction "length rows" arbitrary: rows)
  case 0
  then show ?case by (simp add: solve_rows.simps)
next
  case (Suc n)
  then have ne: "rows \<noteq> []" by auto
  have len: "length (fst r) = Suc n" if "r \<in> set rows" for r
    using Suc.prems(2) Suc.hyps(2) that by simp
  show ?case
  proof (cases "find_pivot rows")
    case None
    then have e: "e = LinAlgError"
      using Suc.prems(1) ne by (subst (asm) solve_rows.simps) simp
    have "dot (fst r) (1 # replicate n 0) = 0" if r: "r \<in> set rows" for r
    proof -
      from len [OF r] obtain a rt where f: "fst r = a # rt" by (cases "fst r") auto
      have "hd (fst r) = 0" using find_pivot_None [OF None] r by simp
      then show ?thesis by (simp add: f dot_Cons dot_zeros)
    qed
    moreover have "length (1 # replicate n (0 :: real)) = length rows" using Suc.hyps(2) by simp
    moreover have "\<exists>v \<in> set (1 # replicate n (0 :: real)). v \<noteq> 0" by simp
    ultimately show ?thesis using e by blast
  next
    case (Some pr)
    obtain p rest where pr: "pr = (p, rest)" by (cases pr)
    have pv: "find_pivot rows = Some (p, rest)" using Some pr by simp
    from find_pivot_Some [OF pv] have ph: "hd (fst p) \<noteq> 0"
      and rs: "set rows = insert p (set rest)" and lr: "length rest + 1 = length rows"
      by simp_all
    have rec: "solve_rows (map (reduce_row p) rest) = Inl e"
      using Suc.prems(1) ne pv by (subst (asm) solve_rows.simps) (auto split: sum.splits)
    have n: "n = length (map (reduce_row p) rest)" using Suc.hyps(2) lr by simp
    have "\<forall>r \<in> set (map (reduce_row p) rest). length (fst r) = length (map (reduce_row p) rest)"
    proof
      fix r
      assume "r \<in> set (map (reduce_row p) rest)"
      then obtain r' where r': "r' \<in> set rest" "r = reduce_row p r'" by auto
      have "length (fst r') = Suc n" "length (fst p) = Suc n"
        using len r'(1) rs by simp_all
      then show "length (fst r) = length (map (reduce_row p) rest)"
        using n by (simp add: r'(2) reduce_row_def)
    qed
    from Suc.hyps(1) [OF n rec this] obtain xt where e: "e = LinAlgError"
      and lx: "length xt = length rest" and nz: "\<exists>v \<in> set xt. v \<noteq> 0"
      and ih: "\<forall>r \<in> set rest. dot (fst (reduce_row p r)) xt = 0"
      by auto
    define x where "x = (- dot (tl (fst p)) xt) / hd (fst p) # xt"
    have eq: "dot (fst r) x = hd (fst r) * ((- dot (tl (fst p)) xt) / hd (fst p))
                + dot (tl (fst r)) xt" if "r \<in> set rows" for r
    proof -
      from len [OF that] obtain a rt where "fst r = a # rt" by (cases "fst r") auto
      then show ?thesis by (simp add: x_def dot_Cons)
    qed
    have "dot (fst r) x = 0" if r: "r \<in> set rows" for r
    proof (cases "r = p")
      case True
      then show ?thesis using eq [OF r] ph by simp
    next
      case False
      then have rr: "r \<in> set rest" using r rs by auto
      have "length (tl (fst r)) = length (tl (fst p))"
        using len [OF r] len [of p] rs by simp
      from dot_reduced [OF this, of "hd (fst r) / hd (fst p)" xt]
      have "dot (fst (reduce_row p r)) xt =
              dot (tl (fst r)) xt - hd (fst r) / hd (fst p) * dot (tl (fst p)) xt"
        by (simp add: reduce_row_def)
      then have "dot (tl (fst r)) xt = hd (fst r) / hd (fst p) * dot (tl (fst p)) xt"
        using ih rr by simp
      then show ?thesis using eq [OF r] ph by (simp add: field_simps)
    qed
    moreover have "length x = length rows" using lx lr by (simp add: x_def)
    moreover have "\<exists>v \<in> set x. v \<noteq> 0" using nz by (auto simp: x_def)
    ultimately show ?thesis using e by blast
  qed
qed

lemma np_linalg_solve_error:
  assumes "np_linalg_solve n A b = Inl e"
  shows "(e = LinAlgError \<and> (length A \<noteq> n \<or> (\<exists>row \<in> set A. length row \<noteq> n)))
       \<or> (e = ValueError \<and> length b \<noteq> n)
       \<or> (e = LinAlgError \<and>
           (\<exists>x. length x = n \<and> (\<exists>v \<in> set x. v \<noteq> 0) \<and> mat_vec A x = replicate n 0))"
proof (cases "length A \<noteq> n \<or> (\<exists>row \<in> set A. length row \<noteq> n)")
  case True
  then show ?thesis using assms by (auto simp: np_linalg_solve_def list_all_iff)
next
  case sq: False
  show ?thesis
  proof (cases "length b \<noteq> n")
    case True
    then show ?thesis using assms sq by (auto simp: np_linalg_solve_def list_all_iff)
  next
    case False
    then have s: "solve_rows (zip A b) = Inl e"
      using assms sq by (auto simp: np_linalg_solve_def list_all_iff)
    have l: "length A = n" "length b = n" using sq False by simp_all
    have "\<forall>r \<in> set (zip A b). length (fst r) = length (zip A b)"
      using l sq by (auto dest: set_zip_leftD)
    from solve_rows_singular [OF s this] obtain x where e: "e = LinAlgError"
      and lx: "length x = n" and nz: "\<exists>v \<in> set x. v \<noteq> 0"
      and d: "\<forall>r \<in> set (zip A b). dot (fst r) x = 0"
      using l by auto
    have "mat_vec A x = replicate n 0"
    proof (rule nth_equalityI)
      show "length (mat_vec A x) = length (replicate n (0 :: real))"
        using l by (simp add: mat_vec_def)
    next
      fix k
      assume "k < length (mat_vec A x)"
      then have k: "k < n" using l by (simp add: mat_vec_def)
      then have "(A ! k, b ! k) \<in> set (zip A b)" using l by (auto simp: set_zip)
      then have "dot (A ! k) x = 0" using d by auto
      then show "mat_vec A x ! k = replicate n 0 ! k" using k l by (simp add: mat_vec_def)
    qed
    then show ?thesis using e lx nz by blast
  qed
qed

subsection \<open>Rounding to five decimals\<close>

lemma rint_bound: "\<bar>of_int (rint x) - x\<bar> \<le> 1 / 2"
proof -
  have "of_int \<lfloor>x\<rfloor> \<le> x" "x < of_int \<lfloor>x\<rfloor> + 1" by linarith+
  then show ?thesis by (auto simp: rint_def Let_def)
qed

lemma np_round5_bound: "\<bar>np_round5 x - x\<bar> \<le> 5 / 1000000"
proof -
  have "\<bar>of_int (rint (x * 100000)) - x * 100000\<bar> \<le> 1 / 2" by (rule rint_bound)
  then show ?thesis unfolding np_round5_def by (simp add: field_simps abs_le_iff)
qed

lemma np_round5_tie: "\<bar>np_round5 (5 / 1000000) - 5 / 1000000\<bar> = 5 / 1000000"
  by (simp add: np_round5_def rint_def Let_def)

lemma dot_rounding_bound:
  assumes "\<forall>a \<in> set row. a = - 1 \<or> a = 0 \<or> a = 1"
  shows "\<bar>dot row (map np_round5 x) - dot row x\<bar>
           \<le> 5 / 1000000 * real (length (filter (\<lambda>a. a \<noteq> 0) row))"
  using assms
proof (induction row arbitrary: x)
  case Nil
  then show ?case by (simp add: dot_def)
next
  case (Cons a row)
  show ?case
  proof (cases x)
    case Nil
    then show ?thesis by (simp add: dot_def)
  next
    case (Cons y ys)
    have ih: "\<bar>dot row (map np_round5 ys) - dot row ys\<bar>
           \<le> 5 / 1000000 * real (length (filter (\<lambda>a. a \<noteq> 0) row))"
      using Cons.IH Cons.prems by simp
    have r: "\<bar>np_round5 y - y\<bar> \<le> 5 / 1000000" by (rule np_round5_bound)
    have a: "a = - 1 \<or> a = 0 \<or> a = 1" using Cons.prems by simp
    have d: "dot (a # row) (map np_round5 x) - dot (a # row) x =
             a * (np_round5 y - y) + (dot row (map np_round5 ys) - dot row ys)"
      by (simp add: dot_def Cons algebra_simps)
    define u where "u = np_round5 y - y"
    define v where "v = dot row (map np_round5 ys) - dot row ys"
    define n where "n = real (length (filter (\<lambda>a. a \<noteq> 0) row))"
    have t: "\<bar>a * u + v\<bar> \<le> \<bar>a\<bar> * \<bar>u\<bar> + \<bar>v\<bar>"
      using abs_triangle_ineq [of "a * u" v] by (simp add: abs_mult)
    have "\<bar>a * u + v\<bar> \<le> 5 / 1000000 * ((if a \<noteq> 0 then 1 else 0) + n)"
    proof (cases "a = 0")
      case True
      then show ?thesis using ih by (simp add: v_def n_def)
    next
      case False
      then have "\<bar>a\<bar> = 1" using a by auto
      then have "\<bar>a * u + v\<bar> \<le> \<bar>u\<bar> + \<bar>v\<bar>" using t by simp
      also have "\<dots> \<le> 5 / 1000000 + 5 / 1000000 * n"
        using ih r by (simp add: u_def v_def n_def)
      finally show ?thesis using False by (simp add: algebra_simps)
    qed
    moreover have "a * u + v = dot (a # row) (map np_round5 x) - dot (a # row) x"
      by (simp add: d u_def v_def)
    moreover have "(if a \<noteq> 0 then 1 else 0) + n =
                   real (length (filter (\<lambda>a. a \<noteq> 0) (a # row)))"
      by (simp add: n_def)
    ultimately show ?thesis by simp
  qed
qed


text \<open>
  Claim C10. Whenever \<^verbatim>\<open>calc_mass_flow_edges\<close> returns, the edge flows it returns are the
  flows computed before its last statement, each rounded to five decimals: every returned
  flow is an integer multiple of 0.00001 and differs from the unrounded flow by at most
  0.000005; that deviation is attained (at the flow 0.000005, rounded to zero). This
  holds on the looped and on the tree branch, whatever the numerical routines are.
\<close>

theorem returned_flows_are_rounded:
  assumes "calc_mass_flow_edges env edge_node_df mass_flow_substation_df all_nodes_df =
             Inr (flows, out)"
  shows "\<exists>m. mass_flow_before_rounding env edge_node_df mass_flow_substation_df all_nodes_df =
               Inr (m, out)
           \<and> flows = map np_round5 m
           \<and> (\<forall>j < length m. (\<exists>k :: int. flows ! j = of_int k / 100000)
                  \<and> \<bar>flows ! j - m ! j\<bar> \<le> 5 / 1000000)
           \<and> \<bar>np_round5 (5 / 1000000) - 5 / 1000000\<bar> = 5 / 1000000"
proof -
  obtain m where m: "mass_flow_before_rounding env edge_node_df mass_flow_substation_df
                       all_nodes_df = Inr (m, out)"
    and f: "flows = map np_round5 m"
    using assms by (auto simp: calc_mass_flow_edges_def split: sum.splits)
  have "(\<exists>k :: int. flows ! j = of_int k / 100000) \<and> \<bar>flows ! j - m ! j\<bar> \<le> 5 / 1000000"
    if "j < length m" for j
  proof
    show "\<exists>k :: int. flows ! j = of_int k / 100000"
      using that f by (auto simp: np_round5_def)
    show "\<bar>flows ! j - m ! j\<bar> \<le> 5 / 1000000"
      using that f np_round5_bound [of "m ! j"] by simp
  qed
  then show ?thesis using m f np_round5_tie by blast
qed

subsection \<open>A network of one pipe\<close>

lemma plant_index_example: "plant_index plant_and_consumer = Inr 0"
  by (simp add: plant_index_def plant_and_consumer_def upt_rec)

lemma tree_example_solution:
  "calc_mass_flow_edges exact_numerics one_pipe [Some (- 1.000004), Some 1.000004]
     plant_and_consumer = Inr ([1], [])"
  by (simp add: calc_mass_flow_edges_def mass_flow_before_rounding_def plant_index_example
        exact_numerics_def one_pipe_def np_delete_def nan_to_num_def verify_solution_def
        np_linalg_solve_def shape1_def solve_rows.simps reduce_row_def
        mat_vec_def dot_def amax_abs_def np_round5_def rint_def Let_def)

text \<open>
  The network of one pipe with a consumer demand of 1.000004 kg/s: the flow solved for is
  1.000004, the flow returned is 1.
\<close>

theorem returned_flows_are_rounded_witness:
  "calc_mass_flow_edges exact_numerics one_pipe [Some (- 1.000004), Some 1.000004]
     plant_and_consumer = Inr ([1], [])
   \<and> (\<exists>m. mass_flow_before_rounding exact_numerics one_pipe [Some (- 1.000004), Some 1.000004]
            plant_and_consumer = Inr (m, [])
          \<and> [1] = map np_round5 m)"
proof -
  have c: "calc_mass_flow_edges exact_numerics one_pipe [Some (- 1.000004), Some 1.000004]
     plant_and_consumer = Inr ([1], [])"
    by (rule tree_example_solution)
  from returned_flows_are_rounded [OF c] obtain m where
    m: "mass_flow_before_rounding exact_numerics one_pipe [Some (- 1.000004), Some 1.000004]
          plant_and_consumer = Inr (m, [])" "[1] = map np_round5 m"
    by (elim exE conjE)
  show ?thesis
  proof (rule conjI [OF c], rule exI [of _ m])
    show "mass_flow_before_rounding exact_numerics one_pipe [Some (- 1.000004), Some 1.000004]
            plant_and_consumer = Inr (m, []) \<and> [1] = map np_round5 m"
      by (rule conjI [OF m])
  qed
qed


subsection \<open>The residual of the returned flows on a tree network\<close>

text \<open>
  Claim C1, as amended. On a network without loops whose incidence matrix has entries -1,
  0 and 1, whenever \<^verbatim>\<open>calc_mass_flow_edges\<close> returns, the flows it returns are a solution
  \<open>x\<close> of the reduced system (the incidence matrix and the node demands without the row of
  the first plant) rounded to five decimals, and at every remaining node the signed sum of
  the returned flows differs from the demand of the node by at most 0.000005 kg/s for each
  edge incident to the node.
\<close>

theorem tree_flow_residual:
  assumes loops: "find_loops env edge_node_df = []"
    and ret: "calc_mass_flow_edges env edge_node_df mass_flow_substation_df all_nodes_df =
                Inr (flows, out)"
    and entries: "\<forall>row \<in> set (values_of edge_node_df). \<forall>a \<in> set row. a = - 1 \<or> a = 0 \<or> a = 1"
  shows "\<exists>i x. plant_index all_nodes_df = Inr i
           \<and> mat_vec (np_delete (values_of edge_node_df) i) x =
               np_delete (map nan_to_num mass_flow_substation_df) i
           \<and> flows = map np_round5 x
           \<and> (\<forall>k < length (np_delete (values_of edge_node_df) i).
                 \<bar>dot (np_delete (values_of edge_node_df) i ! k) flows
                    - np_delete (map nan_to_num mass_flow_substation_df) i ! k\<bar>
                 \<le> 5 / 1000000 *
                     real (length (filter (\<lambda>a. a \<noteq> 0)
                                     (np_delete (values_of edge_node_df) i ! k))))"
proof -
  from ret obtain m where m: "mass_flow_before_rounding env edge_node_df mass_flow_substation_df
      all_nodes_df = Inr (m, out)" and f: "flows = map np_round5 m"
    by (auto simp: calc_mass_flow_edges_def split: sum.splits)
  from m loops obtain i where i: "plant_index all_nodes_df = Inr i"
    by (auto simp: mass_flow_before_rounding_def Let_def split: sum.splits)
  let ?A = "np_delete (values_of edge_node_df) i"
  let ?b = "np_delete (map nan_to_num mass_flow_substation_df) i"
  from m loops i have x: "np_linalg_solve (shape1 edge_node_df) ?A ?b = Inr m"
    by (auto simp: mass_flow_before_rounding_def Let_def split: sum.splits)
  from np_linalg_solve_sound [OF x] have eq: "mat_vec ?A m = ?b" by simp
  have "\<bar>dot (?A ! k) flows - ?b ! k\<bar>
          \<le> 5 / 1000000 * real (length (filter (\<lambda>a. a \<noteq> 0) (?A ! k)))"
    if k: "k < length ?A" for k
  proof -
    have "?b ! k = mat_vec ?A m ! k" by (simp only: eq)
    also have "\<dots> = dot (?A ! k) m" using k by (simp add: mat_vec_def)
    finally have b: "?b ! k = dot (?A ! k) m" .
    have "?A ! k \<in> set ?A" using k by (rule nth_mem)
    then have "?A ! k \<in> set (values_of edge_node_df)"
      by (auto simp: np_delete_def dest: in_set_takeD in_set_dropD)
    then have "\<forall>a \<in> set (?A ! k). a = - 1 \<or> a = 0 \<or> a = 1" using entries by blast
    then show ?thesis unfolding b f by (rule dot_rounding_bound)
  qed
  then show ?thesis using i eq f by blast
qed

text \<open>
  The residual of the returned flows is not below 0.000001: with one pipe and a consumer demand
  of 1.000004 kg/s the returned flow is 1, and the residual at the consumer is 0.000004.
\<close>

theorem tree_flow_residual_counterexample:
  "find_loops exact_numerics one_pipe = []
   \<and> plant_index plant_and_consumer = Inr 0
   \<and> np_delete (values_of one_pipe) 0 = [[1]]
   \<and> np_delete (map nan_to_num [Some (- 1.000004), Some 1.000004]) 0 = [1.000004]
   \<and> calc_mass_flow_edges exact_numerics one_pipe [Some (- 1.000004), Some 1.000004]
        plant_and_consumer = Inr ([1], [])
   \<and> \<not> \<bar>dot [1] [1] - 1.000004\<bar> < 1 / 1000000"
  using tree_example_solution plant_index_example
  by (simp add: exact_numerics_def one_pipe_def np_delete_def nan_to_num_def dot_def)

text \<open>
  The bound of the amended claim on the line of two pipes, with demands of 1.000004 and
  2.000003 kg/s: the flows solved for are 3.000007 and 2.000003, the flows returned are
  3.00001 and 2, and the residual at the first consumer, where two pipes meet, is 0.000006.
\<close>

lemma two_pipes_plant: "plant_index plant_and_two_consumers = Inr 0"
  by (simp add: plant_index_def plant_and_two_consumers_def upt_rec)

lemma two_pipes_solution:
  "calc_mass_flow_edges exact_numerics two_pipes [Some (- 3.000007), Some 1.000004, Some 2.000003]
     plant_and_two_consumers = Inr ([3.00001, 2], [])"
  by (simp add: calc_mass_flow_edges_def mass_flow_before_rounding_def two_pipes_plant
        exact_numerics_def two_pipes_def np_delete_def nan_to_num_def verify_solution_def
        np_linalg_solve_def shape1_def solve_rows.simps reduce_row_def
        mat_vec_def dot_def amax_abs_def np_round5_def rint_def Let_def)

theorem tree_flow_residual_witness:
  "calc_mass_flow_edges exact_numerics two_pipes [Some (- 3.000007), Some 1.000004, Some 2.000003]
     plant_and_two_consumers = Inr ([3.00001, 2], [])
   \<and> \<bar>dot [1, - 1] [3.00001, 2] - 1.000004\<bar>
        \<le> 5 / 1000000 * real (length (filter (\<lambda>a. a \<noteq> 0) [1, - 1 :: real]))
   \<and> \<bar>dot [0, 1] [3.00001, 2] - 2.000003\<bar>
        \<le> 5 / 1000000 * real (length (filter (\<lambda>a. a \<noteq> 0) [0, 1 :: real]))
   \<and> \<bar>dot [1, - 1] [3.00001, 2] - 1.000004\<bar> = 6 / 1000000"
proof -
  have l: "find_loops exact_numerics two_pipes = []" by (simp add: exact_numerics_def)
  have a: "\<forall>row \<in> set (values_of two_pipes). \<forall>a \<in> set row. a = - 1 \<or> a = 0 \<or> a = 1"
    by (simp add: two_pipes_def)
  from tree_flow_residual [OF l two_pipes_solution a] obtain i where
    i: "plant_index plant_and_two_consumers = Inr i"
    and r: "\<forall>k < length (np_delete (values_of two_pipes) i).
          \<bar>dot (np_delete (values_of two_pipes) i ! k) [3.00001, 2]
             - np_delete (map nan_to_num [Some (- 3.000007), Some 1.000004, Some 2.000003]) i ! k\<bar>
          \<le> 5 / 1000000 *
              real (length (filter (\<lambda>a. a \<noteq> 0) (np_delete (values_of two_pipes) i ! k)))"
    by (elim exE conjE)
  have i0: "i = 0" using i two_pipes_plant by simp
  have A: "np_delete (values_of two_pipes) 0 = [[1, - 1], [0, 1]]"
    by (simp add: two_pipes_def np_delete_def)
  have b: "np_delete (map nan_to_num [Some (- 3.000007), Some 1.000004, Some 2.000003]) 0 =
             [1.000004, 2.000003]"
    by (simp add: np_delete_def nan_to_num_def)
  have r': "\<forall>k < length [[1, - 1], [0, 1 :: real]].
          \<bar>dot ([[1, - 1], [0, 1]] ! k) [3.00001, 2] - [1.000004, 2.000003] ! k\<bar>
          \<le> 5 / 1000000 * real (length (filter (\<lambda>a. a \<noteq> 0) ([[1, - 1], [0, 1 :: real]] ! k)))"
    using r unfolding i0 A b .
  have "(0 :: nat) < length [[1, - 1], [0, 1 :: real]]" by simp
  with r' have 1: "\<bar>dot ([[1, - 1], [0, 1]] ! 0) [3.00001, 2] - [1.000004, 2.000003] ! 0\<bar>
          \<le> 5 / 1000000 * real (length (filter (\<lambda>a. a \<noteq> 0) ([[1, - 1], [0, 1 :: real]] ! 0)))"
    by blast
  have "(1 :: nat) < length [[1, - 1], [0, 1 :: real]]" by simp
  with r' have 2: "\<bar>dot ([[1, - 1], [0, 1]] ! 1) [3.00001, 2] - [1.000004, 2.000003] ! 1\<bar>
          \<le> 5 / 1000000 * real (length (filter (\<lambda>a. a \<noteq> 0) ([[1, - 1], [0, 1 :: real]] ! 1)))"
    by blast
  have 3: "\<bar>dot [1, - 1] [3.00001, 2] - 1.000004\<bar> = 6 / 1000000" by (simp add: dot_def)
  from 1 have b1: "\<bar>dot [1, - 1] [3.00001, 2] - 1.000004\<bar>
        \<le> 5 / 1000000 * real (length (filter (\<lambda>a. a \<noteq> 0) [1, - 1 :: real]))"
    by (simp only: nth_Cons_0)
  from 2 have b2: "\<bar>dot [0, 1] [3.00001, 2] - 2.000003\<bar>
        \<le> 5 / 1000000 * real (length (filter (\<lambda>a. a \<noteq> 0) [0, 1 :: real]))"
    by (simp only: One_nat_def nth_Cons_Suc nth_Cons_0)
  show ?thesis by (intro conjI two_pipes_solution b1 b2 3)
qed

subsection \<open>The correction loop of a looped network\<close>

declare hardy_cross.simps [simp del]

lemma hardy_cross_converged:
  "\<not> changed_above tolerance (m, m_old) \<Longrightarrow>
     hardy_cross correct tolerance m m_old s it = (m, s, it, [])"
  by (subst hardy_cross.simps) simp

lemma hardy_cross_pass:
  "changed_above tolerance (m, m_old) \<Longrightarrow> it + 1 < 100 \<Longrightarrow>
     hardy_cross correct tolerance m m_old s it =
     hardy_cross correct (tolerance_after (it + 1)) (fst (correct m)) m (snd (correct m)) (it + 1)"
  by (subst hardy_cross.simps) (simp add: tolerance_after_def)

lemma hardy_cross_ceiling:
  "changed_above tolerance (m, m_old) \<Longrightarrow> \<not> it + 1 < 100 \<Longrightarrow>
     hardy_cross correct tolerance m m_old s it =
     (fst (correct m), snd (correct m), it + 1, [No_convergence_of_looped_massflows (it + 1)])"
  by (subst hardy_cross.simps) simp

lemma hardy_cross_run:
  assumes "hardy_cross correct (tolerance_after it) m m_old s it = (m', s', n, out)"
    and "it < 100"
  shows "it \<le> n \<and> n \<le> 100
         \<and> m' = fst ((correction_pass correct ^^ (n - it)) (m, m_old))
         \<and> (\<forall>k. it \<le> k \<longrightarrow> k < n \<longrightarrow>
               changed_above (tolerance_after k) ((correction_pass correct ^^ (k - it)) (m, m_old)))
         \<and> (n < 100 \<longrightarrow>
               \<not> changed_above (tolerance_after n) ((correction_pass correct ^^ (n - it)) (m, m_old))
               \<and> out = [])
         \<and> (n = 100 \<longrightarrow> out = [No_convergence_of_looped_massflows 100])"
  using assms
proof (induction "100 - it" arbitrary: it m m_old s)
  case 0
  then show ?case by simp
next
  case (Suc d)
  show ?case
  proof (cases "changed_above (tolerance_after it) (m, m_old)")
    case False
    then have "hardy_cross correct (tolerance_after it) m m_old s it = (m, s, it, [])"
      by (rule hardy_cross_converged)
    then have "m' = m" "n = it" "out = []" using Suc.prems(1) by simp_all
    then show ?thesis using False Suc.prems(2) by simp
  next
    case True
    show ?thesis
    proof (cases "it + 1 < 100")
      case False
      then have i: "it = 99" using Suc.prems(2) by simp
      have "hardy_cross correct (tolerance_after it) m m_old s it =
              (fst (correct m), snd (correct m), it + 1,
               [No_convergence_of_looped_massflows (it + 1)])"
        using True False by (rule hardy_cross_ceiling)
      then have r: "m' = fst (correct m)" "n = 100" "out = [No_convergence_of_looped_massflows 100]"
        using Suc.prems(1) i by simp_all
      have k: "changed_above (tolerance_after k)
                 ((correction_pass correct ^^ (k - it)) (m, m_old))" if "it \<le> k" "k < n" for k
      proof -
        have "k = it" using that i r by simp
        then show ?thesis using True by simp
      qed
      have "m' = fst ((correction_pass correct ^^ (n - it)) (m, m_old))"
        using r i by (simp add: correction_pass_def)
      then show ?thesis using r i k by simp
    next
      case lt: True
      have e: "hardy_cross correct (tolerance_after (it + 1)) (fst (correct m)) m (snd (correct m))
                 (it + 1) = (m', s', n, out)"
        using hardy_cross_pass [OF True lt] Suc.prems(1) by simp
      have d: "d = 100 - (it + 1)" using Suc.hyps(2) by simp
      note ih = Suc.hyps(1) [OF d e lt]
      have sh: "(correction_pass correct ^^ (k - (it + 1))) (fst (correct m), m) =
                (correction_pass correct ^^ (k - it)) (m, m_old)" if "it + 1 \<le> k" for k
      proof -
        have "k - it = Suc (k - (it + 1))" using that by simp
        then show ?thesis by (simp add: funpow_swap1 correction_pass_def)
      qed
      have n: "it + 1 \<le> n" using ih by simp
      have 1: "it \<le> n \<and> n \<le> 100" using ih by simp
      have 2: "m' = fst ((correction_pass correct ^^ (n - it)) (m, m_old))"
        using ih sh [OF n] by simp
      have 3: "changed_above (tolerance_after k) ((correction_pass correct ^^ (k - it)) (m, m_old))"
        if "it \<le> k" "k < n" for k
      proof (cases "k = it")
        case True
        then show ?thesis using \<open>changed_above (tolerance_after it) (m, m_old)\<close> by simp
      next
        case False
        then have k: "it + 1 \<le> k" using that by simp
        then have "changed_above (tolerance_after k)
                     ((correction_pass correct ^^ (k - (it + 1))) (fst (correct m), m))"
          using ih that by blast
        then show ?thesis using sh [OF k] by simp
      qed
      have 4: "n < 100 \<longrightarrow>
               \<not> changed_above (tolerance_after n) ((correction_pass correct ^^ (n - it)) (m, m_old))
               \<and> out = []"
        using ih sh [OF n] by simp
      have 5: "n = 100 \<longrightarrow> out = [No_convergence_of_looped_massflows 100]" using ih by simp
      show ?thesis using 1 2 3 4 5 by blast
    qed
  qed
qed

text \<open>
  Claim C4. The correction loop of \<^verbatim>\<open>calc_mass_flow_edges\<close>, started as the source starts it
  (tolerance 0.01, no pass done), always ends, after \<open>n \<le> 100\<close> passes, and returns the flows
  of its last pass without raising. Before pass \<open>k + 1\<close> the change of some edge flow was
  above the tolerance in force after \<open>k\<close> passes, which is 0.01 below 20 passes, 0.02 below 50
  and 0.03 below 100. When it ends below 100 passes no edge flow changed by more than that
  tolerance and nothing is printed; when it ends at 100 passes the warning is printed.
\<close>

theorem hardy_cross_bounded:
  "case hardy_cross correct 0.01 m0 m_old0 s0 0 of
     (m', s', n, out) \<Rightarrow>
       n \<le> 100
       \<and> m' = fst ((correction_pass correct ^^ n) (m0, m_old0))
       \<and> (\<forall>k < n. changed_above (tolerance_after k) ((correction_pass correct ^^ k) (m0, m_old0)))
       \<and> (n < 100 \<longrightarrow>
             \<not> changed_above (tolerance_after n) ((correction_pass correct ^^ n) (m0, m_old0))
             \<and> out = [])
       \<and> (n = 100 \<longrightarrow> out = [No_convergence_of_looped_massflows 100])
       \<and> (\<forall>k. tolerance_after k = (if k < 20 then 0.01 else if k < 50 then 0.02 else 0.03))"
proof -
  obtain m' s' n out where r: "hardy_cross correct 0.01 m0 m_old0 s0 0 = (m', s', n, out)"
    by (metis prod_cases4)
  have t: "tolerance_after 0 = 0.01" by (simp add: tolerance_after_def)
  have "hardy_cross correct (tolerance_after 0) m0 m_old0 s0 0 = (m', s', n, out)"
    using r by (simp only: t)
  from hardy_cross_run [OF this] have
    "0 \<le> n \<and> n \<le> 100
         \<and> m' = fst ((correction_pass correct ^^ (n - 0)) (m0, m_old0))
         \<and> (\<forall>k. 0 \<le> k \<longrightarrow> k < n \<longrightarrow>
               changed_above (tolerance_after k) ((correction_pass correct ^^ (k - 0)) (m0, m_old0)))
         \<and> (n < 100 \<longrightarrow>
               \<not> changed_above (tolerance_after n) ((correction_pass correct ^^ (n - 0)) (m0, m_old0))
               \<and> out = [])
         \<and> (n = 100 \<longrightarrow> out = [No_convergence_of_looped_massflows 100])"
    by simp
  then show ?thesis unfolding r by (simp add: tolerance_after_def)
qed

text \<open>A pass that halves the flows converges after 7 passes, from a flow of 1 kg/s.\<close>

lemma hardy_cross_halve:
  "hardy_cross halve 0.01 [1] [0] [0] 0 = ([1 / 128], [], 7, [])"
  by (simp add: hardy_cross.simps changed_above_def halve_def)

theorem hardy_cross_bounded_witness:
  "hardy_cross halve 0.01 [1] [0] [0] 0 = ([1 / 128], [], 7, [])
   \<and> [1 / 128] = fst ((correction_pass halve ^^ 7) ([1], [0]))
   \<and> changed_above (tolerance_after 6) ((correction_pass halve ^^ 6) ([1], [0]))
   \<and> \<not> changed_above (tolerance_after 7) ((correction_pass halve ^^ 7) ([1], [0]))"
proof -
  note h = hardy_cross_bounded [of halve "[1]" "[0]" "[0]", unfolded hardy_cross_halve prod.case]
  have a: "[1 / 128] = fst ((correction_pass halve ^^ 7) ([1], [0]))"
    using h by (rule conjunct1 [OF conjunct2])
  have "(6 :: nat) < 7" by simp
  then have b: "changed_above (tolerance_after 6) ((correction_pass halve ^^ 6) ([1], [0]))"
    using h by blast
  have "(7 :: nat) < 100" by simp
  then have c: "\<not> changed_above (tolerance_after 7) ((correction_pass halve ^^ 7) ([1], [0]))"
    using h by blast
  show ?thesis using hardy_cross_halve a b c by (intro conjI)
qed

text \<open>A pass that never converges is stopped at 100 passes, with the warning.\<close>

lemma add_one_passes:
  "(correction_pass add_one ^^ k) ([1], [0]) = ([1 + real k], [real k])"
  by (induction k) (simp_all add: correction_pass_def add_one_def)

lemma hardy_cross_add_one:
  "\<exists>m' s'. hardy_cross add_one 0.01 [1] [0] [0] 0 =
     (m', s', 100, [No_convergence_of_looped_massflows 100])"
proof -
  obtain m' s' n out where r: "hardy_cross add_one 0.01 [1] [0] [0] 0 = (m', s', n, out)"
    by (metis prod_cases4)
  have t: "tolerance_after 0 = 0.01" by (simp add: tolerance_after_def)
  have "hardy_cross add_one (tolerance_after 0) [1] [0] [0] 0 = (m', s', n, out)"
    using r by (simp only: t)
  note h = hardy_cross_run [OF this]
  have c: "changed_above (tolerance_after n) ((correction_pass add_one ^^ (n - 0)) ([1], [0]))"
    by (simp add: add_one_passes changed_above_def tolerance_after_def)
  have "n = 100" using h c by force
  then show ?thesis using h r by simp
qed


text \<open>On a looped network with a plant and another node the solver returns normally.\<close>

lemma looped_network_returns:
  assumes "find_loops env edge_node_df \<noteq> []"
    and "plant_index all_nodes_df = Inr i"
    and "np_delete (values_of edge_node_df) i \<noteq> []"
  shows "\<exists>flows out. calc_mass_flow_edges env edge_node_df mass_flow_substation_df all_nodes_df =
           Inr (flows, out)"
  using assms
  by (simp add: calc_mass_flow_edges_def mass_flow_before_rounding_def verify_solution_def Let_def)

section \<open>Properties of the direction normalisation\<close>

lemma np_min_Min: "v \<noteq> [] \<Longrightarrow> np_min v = Min (set v)"
proof -
  assume "v \<noteq> []"
  then obtain x xs where v: "v = x # xs" by (cases v) auto
  have "np_min v = Min (set (x # xs))"
    unfolding np_min_def v by (simp add: Min.set_eq_fold del: set_simps)
  then show ?thesis by (simp add: v)
qed

lemma np_min_nonneg: "v \<noteq> [] \<Longrightarrow> \<not> np_min v < 0 \<Longrightarrow> \<forall>m \<in> set v. 0 \<le> m"
  by (simp add: np_min_Min not_less)


lemma columns_negate_label: "columns (negate_label l df) = columns df"
  by (simp add: negate_label_def)





















section \<open>Properties of the plant temperature search\<close>













lemma lossy_forced:
  "force_targets [''NODE0'', ''NODE1''] (map snd consumer_target) [''NODE1''] (lossy_pass t) =
     Inr [Some t, Some 343.15]"
  by (simp add: consumer_target_def lossy_pass_def upt_rec)







section \<open>Properties of the mixing at a node\<close>









end
